theory Spec2Isabelle
  imports Main "HOL-Library.Word"
begin

unbundle bit_operations_syntax

section \<open>Machine types\<close>

type_synonym u8 = "8 word"
type_synonym u16 = "16 word"
type_synonym u32 = "32 word"

section \<open>Errors as values\<close>

text \<open>
  Every function that can leave the behaviour C++ defines returns a sum, \<open>Inl\<close> the error.
  \<open>bindE\<close> sequences two such steps.
\<close>

definition bindE :: "'x + 'a \<Rightarrow> ('a \<Rightarrow> 'x + 'b) \<Rightarrow> 'x + 'b" where
  "bindE m f = (case m of Inl e \<Rightarrow> Inl e | Inr x \<Rightarrow> f x)"


section \<open>Quantisation tables (masher.cpp)\<close>

definition gQuant1_dword_42AEC8 :: "u32 list" where
  "gQuant1_dword_42AEC8 =
   [0x0C, 0x0B, 0x0A, 0x0C, 0x0E, 0x0E, 0x0D, 0x0E,
    0x10, 0x18, 0x13, 0x10, 0x11, 0x12, 0x18, 0x16,
    0x16, 0x18, 0x1A, 0x28, 0x33, 0x3A, 0x28, 0x1D,
    0x25, 0x23, 0x31, 0x48, 0x40, 0x37, 0x38, 0x33,
    0x39, 0x3C, 0x3D, 0x37, 0x45, 0x57, 0x44, 0x40,
    0x4E, 0x5C, 0x5F, 0x57, 0x51, 0x6D, 0x50, 0x38,
    0x3E, 0x67, 0x68, 0x67, 0x62, 0x70, 0x79, 0x71,
    0x4D, 0x5C, 0x78, 0x64, 0x67, 0x65, 0x63, 0x10]"

definition gQaunt2_dword_42AFC4 :: "u32 list" where
  "gQaunt2_dword_42AFC4 =
   [0x10, 0x12, 0x12, 0x18, 0x15, 0x18, 0x2F, 0x1A,
    0x1A, 0x2F, 0x63, 0x42, 0x38, 0x42, 0x63, 0x63,
    0x63, 0x63, 0x63, 0x63, 0x63, 0x63, 0x63, 0x63,
    0x63, 0x63, 0x63, 0x63, 0x63, 0x63, 0x63, 0x63,
    0x63, 0x63, 0x63, 0x63, 0x63, 0x63, 0x63, 0x63,
    0x63, 0x63, 0x63, 0x63, 0x63, 0x63, 0x63, 0x63,
    0x63, 0x63, 0x63, 0x63, 0x63, 0x63, 0x63, 0x63,
    0x63, 0x63, 0x63, 0x63, 0x63, 0x63, 0x63, 0x63]"

text \<open>
  The two process-wide dequantisation arrays \<^verbatim>\<open>g_252_buffer_unk_63580C\<close> (selected by
  \<^verbatim>\<open>isYBlock\<close>, the luma array) and \<^verbatim>\<open>g_252_buffer_unk_635A0C\<close> (chroma), 64 dwords each.
\<close>

record qtables =
  g_252_buffer_unk_63580C :: "u32 list"
  g_252_buffer_unk_635A0C :: "u32 list"

definition qtables_init :: qtables where
  "qtables_init = \<lparr> g_252_buffer_unk_63580C = replicate 64 0,
                    g_252_buffer_unk_635A0C = replicate 64 0 \<rparr>"

text \<open>
  The \<^verbatim>\<open>do { ... } while (result < 63)\<close> loop of \<^verbatim>\<open>after_block_decode_no_effect_q_impl\<close>:
  \<^verbatim>\<open>val\<close> is read before \<^verbatim>\<open>result\<close> is incremented, the chroma base entry after.
  The product \<^verbatim>\<open>quantScale * val\<close> of an \<^verbatim>\<open>int\<close> and a \<^verbatim>\<open>u32\<close> is computed unsigned, modulo \<open>2^32\<close>.
\<close>

function quant_loop :: "u32 \<Rightarrow> nat \<Rightarrow> qtables \<Rightarrow> qtables" where
  "quant_loop quantScale result q =
     (let val = gQuant1_dword_42AEC8 ! result;
          result' = result + 1;
          q' = q\<lparr> g_252_buffer_unk_63580C :=
                     (g_252_buffer_unk_63580C q)[result' := quantScale * val] \<rparr>;
          q'' = q'\<lparr> g_252_buffer_unk_635A0C :=
                     (g_252_buffer_unk_635A0C q')[result' := quantScale * (gQaunt2_dword_42AFC4 ! result')] \<rparr>
      in if result' < 63 then quant_loop quantScale result' q'' else q'')"
  by pat_completeness auto
termination
  by (relation "measure (\<lambda>(qs, r, q). 63 - r)") auto

declare quant_loop.simps [simp del]

text \<open>The \<^verbatim>\<open>for (i = 0; i < 64; i++)\<close> loop of the else branch.\<close>

fun fill16_loop :: "nat \<Rightarrow> nat \<Rightarrow> qtables \<Rightarrow> qtables" where
  "fill16_loop 0 i q = q"
| "fill16_loop (Suc n) i q =
     fill16_loop n (i + 1)
       (q\<lparr> g_252_buffer_unk_635A0C := (g_252_buffer_unk_635A0C q)[i := 16],
           g_252_buffer_unk_63580C := (g_252_buffer_unk_63580C q)[i := 16] \<rparr>)"

definition after_block_decode_no_effect_q_impl :: "u32 \<Rightarrow> qtables \<Rightarrow> qtables" where
  "after_block_decode_no_effect_q_impl quantScale q =
     (let q1 = q\<lparr> g_252_buffer_unk_63580C := (g_252_buffer_unk_63580C q)[0 := 16] \<rparr>;
          q2 = q1\<lparr> g_252_buffer_unk_635A0C := (g_252_buffer_unk_635A0C q1)[0 := 16] \<rparr>
      in if 0 <s quantScale then quant_loop quantScale 0 q2
         else fill16_loop 64 0 q2)"

section \<open>Container header parse (Masher::Read)\<close>

text \<open>
  The two exceptions \<^verbatim>\<open>Masher::Read\<close> throws are both of class \<^verbatim>\<open>InvalidDdv\<close>, told apart by their
  message. Modelled from the spec: the stream class behind \<^verbatim>\<open>mStream\<close> is declared outside the
  sources at hand; a read the stream cannot satisfy fails with \<open>ShortRead\<close>, integers are
  little-endian, and \<^verbatim>\<open>Seek\<close> only moves the position.
\<close>

datatype masher_error = InvalidDdv string | ShortRead

record stream =
  mData :: "u8 list"
  mPos :: nat

type_synonym 'a io = "stream \<Rightarrow> (masher_error + 'a) \<times> stream"

definition io_return :: "'a \<Rightarrow> 'a io" where
  "io_return x s = (Inr x, s)"

definition io_throw :: "masher_error \<Rightarrow> 'a io" where
  "io_throw e s = (Inl e, s)"

definition io_bind :: "'a io \<Rightarrow> ('a \<Rightarrow> 'b io) \<Rightarrow> 'b io" where
  "io_bind m f s = (case m s of (Inl e, s') \<Rightarrow> (Inl e, s') | (Inr x, s') \<Rightarrow> f x s')"

definition le_u16 :: "u8 \<Rightarrow> u8 \<Rightarrow> u16" where
  "le_u16 b0 b1 = ucast b0 OR push_bit 8 (ucast b1)"

definition le_u32 :: "u8 \<Rightarrow> u8 \<Rightarrow> u8 \<Rightarrow> u8 \<Rightarrow> u32" where
  "le_u32 b0 b1 b2 b3 =
     ucast b0 OR push_bit 8 (ucast b1) OR push_bit 16 (ucast b2) OR push_bit 24 (ucast b3)"

definition Read_u32 :: "u32 io" where
  "Read_u32 s =
     (case drop (mPos s) (mData s) of
        b0 # b1 # b2 # b3 # _ \<Rightarrow> (Inr (le_u32 b0 b1 b2 b3), s\<lparr>mPos := mPos s + 4\<rparr>)
      | _ \<Rightarrow> (Inl ShortRead, s))"

definition Read_u16 :: "u16 io" where
  "Read_u16 s =
     (case drop (mPos s) (mData s) of
        b0 # b1 # _ \<Rightarrow> (Inr (le_u16 b0 b1), s\<lparr>mPos := mPos s + 2\<rparr>)
      | _ \<Rightarrow> (Inl ShortRead, s))"

definition Seek :: "nat \<Rightarrow> unit io" where
  "Seek p s = (Inr (), s\<lparr>mPos := p\<rparr>)"

definition Pos :: "nat io" where
  "Pos s = (Inr (mPos s), s)"

text \<open>
  Modelled from the spec: \<^verbatim>\<open>MakeType\<close> is declared outside the sources at hand; the magic is the four
  bytes \<^verbatim>\<open>D D V \0\<close> at offset 0, read as one little-endian \<^verbatim>\<open>u32\<close>.
\<close>

definition MakeType_DDV :: u32 where
  "MakeType_DDV = le_u32 0x44 0x44 0x56 0x00"

definition kVideoFlag :: u32 where "kVideoFlag = 1"
definition kAudioFlag :: u32 where "kAudioFlag = 2"
definition kMacroBlockWidth :: nat where "kMacroBlockWidth = 16"
definition kMacroBlockHeight :: nat where "kMacroBlockHeight = 16"
definition kNumberOfBlocks :: nat where "kNumberOfBlocks = 6"

text \<open>
  Modelled from the spec: the header structs are declared outside the sources at hand; field
  widths follow the container layout of the spec (\<open>width\<close> and \<open>height\<close> are 16-bit, every other
  field 32-bit), and members no branch assigns keep the value 0.
\<close>

record FileHeader =
  mDdvTag :: u32
  mDdvVersion :: u32
  mContains :: u32
  mFrameRate :: u32
  mNumberOfFrames :: u32

record VideoHeader =
  mUnknown :: u32
  mWidth :: u16
  mHeight :: u16
  mMaxAudioFrameSize :: u32
  mMaxVideoFrameSize :: u32
  mKeyFrameRate :: u32

record AudioHeader =
  mAudioFormat :: u32
  mSampleRate :: u32
  mAudioMaxAudioFrameSize :: u32
  mSingleAudioFrameSize :: u32
  mNumberOfFramesInterleave :: u32

record masher =
  mFileHeader :: FileHeader
  mVideoHeader :: VideoHeader
  mAudioHeader :: AudioHeader
  mbHasVideo :: bool
  mbHasAudio :: bool
  mNumMacroblocksX :: nat
  mNumMacroblocksY :: nat
  mAudioFrameSizes :: "u32 list"
  mFrameSizes :: "u32 list"
  mMacroBlockBufferSize :: nat
  mDecodedVideoFrameDataSize :: nat
  mAudioFrameDataSize :: nat

definition VideoHeader_zero :: VideoHeader where
  "VideoHeader_zero = \<lparr> mUnknown = 0, mWidth = 0, mHeight = 0, mMaxAudioFrameSize = 0,
                         mMaxVideoFrameSize = 0, mKeyFrameRate = 0 \<rparr>"

definition AudioHeader_zero :: AudioHeader where
  "AudioHeader_zero = \<lparr> mAudioFormat = 0, mSampleRate = 0, mAudioMaxAudioFrameSize = 0,
                         mSingleAudioFrameSize = 0, mNumberOfFramesInterleave = 0 \<rparr>"

text \<open>\<^verbatim>\<open>mNumMacroblocksX = width / 16; if (width % 16 != 0) mNumMacroblocksX++;\<close>\<close>

definition num_macroblocks :: "nat \<Rightarrow> nat \<Rightarrow> nat" where
  "num_macroblocks extent blockExtent =
     (let n = extent div blockExtent in if extent mod blockExtent \<noteq> 0 then n + 1 else n)"

definition read_video_header :: "(VideoHeader \<times> nat \<times> nat) io" where
  "read_video_header =
     io_bind Read_u32 (\<lambda>unknown.
     io_bind Read_u16 (\<lambda>width.
     io_bind Read_u16 (\<lambda>height.
     io_bind Read_u32 (\<lambda>maxAudio.
     io_bind Read_u32 (\<lambda>maxVideo.
     io_bind Read_u32 (\<lambda>keyFrameRate.
       io_return
         (\<lparr> mUnknown = unknown, mWidth = width, mHeight = height, mMaxAudioFrameSize = maxAudio,
            mMaxVideoFrameSize = maxVideo, mKeyFrameRate = keyFrameRate \<rparr>,
          num_macroblocks (unat width) kMacroBlockWidth,
          num_macroblocks (unat height) kMacroBlockHeight)))))))"

text \<open>The loops \<^verbatim>\<open>for (i = 0; i < n; i++) { mStream->Read(tmp); sizes[i] = tmp; }\<close>.\<close>

fun read_sizes :: "nat \<Rightarrow> (u32 list) io" where
  "read_sizes 0 = io_return []"
| "read_sizes (Suc n) =
     io_bind Read_u32 (\<lambda>tmp. io_bind (read_sizes n) (\<lambda>rest. io_return (tmp # rest)))"

definition read_audio_header :: "(AudioHeader \<times> u32 list) io" where
  "read_audio_header =
     io_bind Read_u32 (\<lambda>audioFormat.
     io_bind Read_u32 (\<lambda>sampleRate.
     io_bind Read_u32 (\<lambda>maxAudio.
     io_bind Read_u32 (\<lambda>single.
     io_bind Read_u32 (\<lambda>interleave.
     io_bind (read_sizes (unat interleave)) (\<lambda>sizes.
       io_return
         (\<lparr> mAudioFormat = audioFormat, mSampleRate = sampleRate, mAudioMaxAudioFrameSize = maxAudio,
            mSingleAudioFrameSize = single, mNumberOfFramesInterleave = interleave \<rparr>, sizes)))))))"

text \<open>The loop that seeks past the interleaved audio prebuffers.\<close>

fun skip_prebuffers :: "u32 list \<Rightarrow> unit io" where
  "skip_prebuffers [] = io_return ()"
| "skip_prebuffers (totalSize # rest) =
     io_bind Pos (\<lambda>p. io_bind (Seek (p + unat totalSize)) (\<lambda>_. skip_prebuffers rest))"

definition Read :: "masher io" where
  "Read =
     io_bind Read_u32 (\<lambda>tag.
     if tag \<noteq> MakeType_DDV then io_throw (InvalidDdv ''Invalid DDV tag'') else
     io_bind Read_u32 (\<lambda>version.
     if version \<noteq> 1 then io_throw (InvalidDdv ''Wrong DDV version'') else
     io_bind Read_u32 (\<lambda>contains.
     io_bind Read_u32 (\<lambda>frameRate.
     io_bind Read_u32 (\<lambda>numberOfFrames.
     let hasVideo = (contains AND kVideoFlag = kVideoFlag);
         hasAudio = (contains AND kAudioFlag = kAudioFlag)
     in
     io_bind (if hasVideo then read_video_header else io_return (VideoHeader_zero, 0, 0))
       (\<lambda>(vh, mbX, mbY).
     io_bind (if hasAudio then read_audio_header else io_return (AudioHeader_zero, []))
       (\<lambda>(ah, audioSizes).
     io_bind (read_sizes (unat numberOfFrames)) (\<lambda>frameSizes.
     io_bind (skip_prebuffers audioSizes) (\<lambda>_.
       io_return
         \<lparr> mFileHeader = \<lparr> mDdvTag = tag, mDdvVersion = version, mContains = contains,
                            mFrameRate = frameRate, mNumberOfFrames = numberOfFrames \<rparr>,
           mVideoHeader = vh, mAudioHeader = ah,
           mbHasVideo = hasVideo, mbHasAudio = hasAudio,
           mNumMacroblocksX = mbX, mNumMacroblocksY = mbY,
           mAudioFrameSizes = audioSizes, mFrameSizes = frameSizes,
           mMacroBlockBufferSize =
             (mbX * kMacroBlockWidth) * (mbY * kMacroBlockHeight) * kNumberOfBlocks,
           mDecodedVideoFrameDataSize = unat (mMaxVideoFrameSize vh),
           mAudioFrameDataSize = unat (mMaxAudioFrameSize vh) \<rparr>)))))))))"

section \<open>Inverse DCT (half_idct, idct)\<close>

text \<open>
  \<^verbatim>\<open>int32_t\<close> values are 32-bit words read in two's complement; products and sums wrap modulo
  \<open>2^32\<close>, and \<^verbatim>\<open>>>\<close> on them is the arithmetic shift \<open>signed_drop_bit\<close>.
  \<^verbatim>\<open>T64IntsArray\<close> is \<^verbatim>\<open>std::array<int32_t, 64 * 4>\<close>.
\<close>

type_synonym s32 = "32 word"
type_synonym s16 = "16 word"
type_synonym T64IntsArray = "s32 list"

text \<open>One iteration of the \<^verbatim>\<open>for\<close> loop of \<^verbatim>\<open>half_idct\<close>: eight reads, eight writes.\<close>

definition half_idct_body ::
  "T64IntsArray \<Rightarrow> T64IntsArray \<Rightarrow> nat \<Rightarrow> nat \<Rightarrow> nat \<Rightarrow> nat \<Rightarrow> T64IntsArray" where
  "half_idct_body pSource pDestination nPitch nShift sourceIdx destinationIdx =
     (let src = (\<lambda>k. pSource ! ((k * nPitch) + sourceIdx));
          pTemp4 = src 0 * 8192 + src 2 * 10703 + src 4 * 8192 + src 6 * 4433;
          pTemp5 = src 0 * 8192 + src 2 * 4433 - src 4 * 8192 - src 6 * 10704;
          pTemp6 = src 0 * 8192 - src 2 * 4433 - src 4 * 8192 + src 6 * 10704;
          pTemp7 = src 0 * 8192 - src 2 * 10703 + src 4 * 8192 - src 6 * 4433;
          pTemp0 = src 1 * 11363 + src 3 * 9633 + src 5 * 6437 + src 7 * 2260;
          pTemp1 = src 1 * 9633 - src 3 * 2259 - src 5 * 11362 - src 7 * 6436;
          pTemp2 = src 1 * 6437 - src 3 * 11362 + src 5 * 2261 + src 7 * 9633;
          pTemp3 = src 1 * 2260 - src 3 * 6436 + src 5 * 9633 - src 7 * 11363
      in pDestination
           [(0 * nPitch) + destinationIdx := signed_drop_bit nShift (pTemp4 + pTemp0),
            (1 * nPitch) + destinationIdx := signed_drop_bit nShift (pTemp5 + pTemp1),
            (2 * nPitch) + destinationIdx := signed_drop_bit nShift (pTemp6 + pTemp2),
            (3 * nPitch) + destinationIdx := signed_drop_bit nShift (pTemp7 + pTemp3),
            (4 * nPitch) + destinationIdx := signed_drop_bit nShift (pTemp7 - pTemp3),
            (5 * nPitch) + destinationIdx := signed_drop_bit nShift (pTemp6 - pTemp2),
            (6 * nPitch) + destinationIdx := signed_drop_bit nShift (pTemp5 - pTemp1),
            (7 * nPitch) + destinationIdx := signed_drop_bit nShift (pTemp4 - pTemp0)])"

text \<open>
  The loop \<^verbatim>\<open>for (i = 0; i < 8; i++)\<close>; the first argument counts the iterations left, and
  \<^verbatim>\<open>sourceIdx\<close> and \<^verbatim>\<open>destinationIdx\<close> advance by \<^verbatim>\<open>nIncrement\<close>.
\<close>

fun half_idct_loop ::
  "nat \<Rightarrow> T64IntsArray \<Rightarrow> T64IntsArray \<Rightarrow> nat \<Rightarrow> nat \<Rightarrow> nat \<Rightarrow> nat \<Rightarrow> nat \<Rightarrow> T64IntsArray" where
  "half_idct_loop 0 pSource pDestination nPitch nIncrement nShift sourceIdx destinationIdx =
     pDestination"
| "half_idct_loop (Suc n) pSource pDestination nPitch nIncrement nShift sourceIdx destinationIdx =
     half_idct_loop n pSource
       (half_idct_body pSource pDestination nPitch nShift sourceIdx destinationIdx)
       nPitch nIncrement nShift (sourceIdx + nIncrement) (destinationIdx + nIncrement)"

definition half_idct ::
  "T64IntsArray \<Rightarrow> T64IntsArray \<Rightarrow> nat \<Rightarrow> nat \<Rightarrow> nat \<Rightarrow> T64IntsArray" where
  "half_idct pSource pDestination nPitch nIncrement nShift =
     half_idct_loop 8 pSource pDestination nPitch nIncrement nShift 0 0"

text \<open>
  \<^verbatim>\<open>idct(int16_t* input, T64IntsArray& pDestination)\<close>. The loop
  \<^verbatim>\<open>pExtendedSource[i] = input[i * 2]\<close> sign-extends every second 16-bit element. The two local
  arrays are uninitialised in the source; only their entries 0..63 are ever read, each after it
  has been written, so the model starts them at zero.
\<close>

definition sign_extend_input :: "s16 list \<Rightarrow> T64IntsArray" where
  "sign_extend_input input =
     foldl (\<lambda>pExtendedSource i. pExtendedSource[i := scast (input ! (i * 2))])
       (replicate 256 0) [0..<64]"

definition idct :: "s16 list \<Rightarrow> T64IntsArray \<Rightarrow> T64IntsArray" where
  "idct input pDestination =
     (let pExtendedSource = sign_extend_input input;
          pTemp = half_idct pExtendedSource (replicate 256 0) 8 1 11
      in half_idct pTemp pDestination 1 8 18)"

text \<open>
  The block buffer holds 32-bit slots, and \<^verbatim>\<open>idct\<close> receives it as \<^verbatim>\<open>int16_t*\<close>: on the
  little-endian hosts the player runs on, element \<open>2 * i\<close> of that view is the low half of slot
  \<open>i\<close> and element \<open>2 * i + 1\<close> the high half.
\<close>

definition int16_view :: "u32 list \<Rightarrow> s16 list" where
  "int16_view slots = concat (map (\<lambda>w. [ucast w, ucast (drop_bit 16 w)]) slots)"

subsection \<open>The transform as the specification words it\<close>

text \<open>
  The 8-point butterfly of the specification, on one line \<open>s0..s7\<close>: even part \<open>E0..E3\<close>, odd part
  \<open>O0..O3\<close>, outputs \<open>d[0..3] = (E + O) >> shift\<close> and \<open>d[7..4] = (E - O) >> shift\<close>.
\<close>

definition butterfly_E :: "s32 list \<Rightarrow> s32 list" where
  "butterfly_E s =
     [s ! 0 * 8192 + s ! 2 * 10703 + s ! 4 * 8192 + s ! 6 * 4433,
      s ! 0 * 8192 + s ! 2 * 4433 - s ! 4 * 8192 - s ! 6 * 10704,
      s ! 0 * 8192 - s ! 2 * 4433 - s ! 4 * 8192 + s ! 6 * 10704,
      s ! 0 * 8192 - s ! 2 * 10703 + s ! 4 * 8192 - s ! 6 * 4433]"

definition butterfly_O :: "s32 list \<Rightarrow> s32 list" where
  "butterfly_O s =
     [s ! 1 * 11363 + s ! 3 * 9633 + s ! 5 * 6437 + s ! 7 * 2260,
      s ! 1 * 9633 - s ! 3 * 2259 - s ! 5 * 11362 - s ! 7 * 6436,
      s ! 1 * 6437 - s ! 3 * 11362 + s ! 5 * 2261 + s ! 7 * 9633,
      s ! 1 * 2260 - s ! 3 * 6436 + s ! 5 * 9633 - s ! 7 * 11363]"

definition butterfly_spec :: "nat \<Rightarrow> s32 list \<Rightarrow> s32 list" where
  "butterfly_spec shift s =
     (let even = butterfly_E s; odd = butterfly_O s
      in map (\<lambda>j. signed_drop_bit shift (even ! j + odd ! j)) [0, 1, 2, 3] @
         map (\<lambda>j. signed_drop_bit shift (even ! j - odd ! j)) [3, 2, 1, 0])"

text \<open>
  Pass 1 has pitch 8 and shift 11: line \<open>i\<close> is column \<open>i\<close>, the elements \<open>i, 8 + i, ..., 56 + i\<close>.
  Pass 2 has pitch 1 and shift 18: line \<open>i\<close> is row \<open>i\<close>, the elements \<open>8 * i, ..., 8 * i + 7\<close>.
\<close>

definition idct_pass1_spec :: "s32 list \<Rightarrow> s32 list" where
  "idct_pass1_spec a =
     map (\<lambda>idx. butterfly_spec 11 (map (\<lambda>j. a ! (8 * j + idx mod 8)) [0..<8]) ! (idx div 8))
       [0..<64]"

definition idct_pass2_spec :: "s32 list \<Rightarrow> s32 list" where
  "idct_pass2_spec a =
     map (\<lambda>idx. butterfly_spec 18 (map (\<lambda>j. a ! (j + 8 * (idx div 8))) [0..<8]) ! (idx mod 8))
       [0..<64]"

definition idct_spec :: "u32 list \<Rightarrow> s32 list" where
  "idct_spec slots =
     idct_pass2_spec (idct_pass1_spec (map (\<lambda>w. scast (ucast w :: s16)) (take 64 slots)))"

section \<open>Audio decoder (AudioDecompressor, Masher::decode_audio_frame)\<close>

text \<open>
  What C++ leaves undefined is an error value of the model: a read or write outside the buffer
  handed in, a shift by a negative count or by 32 or more, a negative byte count for \<^verbatim>\<open>memset\<close>.
  Signed arithmetic that overflows wraps, as the builds of the player do.
\<close>

datatype audio_error = ReadOutOfBounds | WriteOutOfBounds | UndefinedShift | NegativeSize

text \<open>
  A shift of a 32-bit operand by an \<^verbatim>\<open>int\<close> count; a left shift within range wraps.
\<close>

definition shl32 :: "u32 \<Rightarrow> int \<Rightarrow> audio_error + u32" where
  "shl32 v n = (if 0 \<le> n \<and> n < 32 then Inr (push_bit (nat n) v) else Inl UndefinedShift)"

definition shr32 :: "u32 \<Rightarrow> int \<Rightarrow> audio_error + u32" where
  "shr32 v n = (if 0 \<le> n \<and> n < 32 then Inr (drop_bit (nat n) v) else Inl UndefinedShift)"

definition sar32 :: "s32 \<Rightarrow> int \<Rightarrow> audio_error + s32" where
  "sar32 v n = (if 0 \<le> n \<and> n < 32 then Inr (signed_drop_bit (nat n) v) else Inl UndefinedShift)"

text \<open>\<^verbatim>\<open>abs\<close> of an \<^verbatim>\<open>s16\<close> promoted to \<^verbatim>\<open>int\<close>: \<open>-32768\<close> gives \<open>32768\<close>.\<close>

definition abs_s16 :: "s16 \<Rightarrow> s32" where
  "abs_s16 v = (if sint v < 0 then - scast v else scast v)"

subsection \<open>The bit-count table\<close>

text \<open>The inner loop \<^verbatim>\<open>for (int i = index; i > 0; ++tableValue) i >>= 1;\<close> of \<^verbatim>\<open>init_Snd_tbl\<close>.\<close>

function snd_tbl_loop :: "nat \<Rightarrow> nat \<Rightarrow> nat" where
  "snd_tbl_loop i tableValue = (if i > 0 then snd_tbl_loop (i div 2) (tableValue + 1) else tableValue)"
  by pat_completeness auto
termination
  by (relation "measure fst") auto

declare snd_tbl_loop.simps [simp del]

definition gSndTbl_byte_62EEB0 :: "u8 list" where
  "gSndTbl_byte_62EEB0 = map (\<lambda>index. of_nat (snd_tbl_loop index 0)) [0..<256]"

subsection \<open>Table lookup and residual expansion\<close>

definition GetSoundTableValue :: "s16 \<Rightarrow> audio_error + s32" where
  "GetSoundTableValue tblIndex =
     (let positiveTblIdx = abs_s16 tblIndex;
          shiftedIdx = drop_bit 7 positiveTblIdx AND 0xFF;
          t = gSndTbl_byte_62EEB0 ! unat shiftedIdx
      in bindE (shr32 positiveTblIdx (uint t)) (\<lambda>shifted.
         let result = ucast (ucast (push_bit 7 (ucast t :: s32)) :: u16)
                        OR ucast (ucast shifted :: u16)
         in Inr (if sint tblIndex < 0 then - result else result)))"

definition sub_408F50 :: "s16 \<Rightarrow> audio_error + s16" where
  "sub_408F50 sample =
     (let absSample = abs_s16 sample;
          sampleBits = drop_bit 7 absSample;
          sampleMasked = absSample AND 0x7F
      in bindE (shl32 sampleMasked (sint sampleBits)) (\<lambda>base.
         bindE (if 2 \<le> sint sampleBits
                then bindE (shl32 1 (sint sampleBits - 2)) (\<lambda>b. Inr (ucast base OR ucast b))
                else Inr (ucast base)) (\<lambda>result :: s16.
         Inr (if sint sample < 0 then - result else result))))"

subsection \<open>The bit reader\<close>

text \<open>
  Modelled from the spec: the class declaration is outside the sources at hand; the work register
  is an unsigned 32-bit value consumed from its low end, and the counters are \<^verbatim>\<open>s32\<close>.
\<close>

record AudioDecompressor =
  mUsedBits :: int
  mWorkBits :: u32
  mAudioFrameDataPtr :: nat
  mAudioFrameSizeBytes :: int

definition AudioDecompressor_new :: AudioDecompressor where
  "AudioDecompressor_new =
     \<lparr> mUsedBits = 0, mWorkBits = 0, mAudioFrameDataPtr = 0, mAudioFrameSizeBytes = 0 \<rparr>"

definition ReadNextAudioWord ::
  "u16 list \<Rightarrow> AudioDecompressor \<Rightarrow> u32 \<Rightarrow> audio_error + (u32 \<times> AudioDecompressor)" where
  "ReadNextAudioWord raw d val =
     (if mUsedBits d \<le> 16 then
        (if mAudioFrameDataPtr d < length raw then
           bindE (shl32 (ucast (raw ! mAudioFrameDataPtr d)) (mUsedBits d)) (\<lambda>sh.
             Inr (val OR sh,
                  d\<lparr> mAudioFrameDataPtr := mAudioFrameDataPtr d + 1,
                     mUsedBits := mUsedBits d + 16 \<rparr>))
         else Inl ReadOutOfBounds)
      else Inr (val, d))"

definition SndRelated_sub_409650 ::
  "u16 list \<Rightarrow> AudioDecompressor \<Rightarrow> audio_error + AudioDecompressor" where
  "SndRelated_sub_409650 raw d =
     (let numBits = mUsedBits d AND 7;
          d1 = d\<lparr> mUsedBits := mUsedBits d - numBits \<rparr>
      in bindE (shr32 (mWorkBits d1) numBits) (\<lambda>w.
         bindE (ReadNextAudioWord raw (d1\<lparr> mWorkBits := w \<rparr>) w) (\<lambda>(w', d2).
           Inr (d2\<lparr> mWorkBits := w' \<rparr>))))"

definition NextSoundBits ::
  "u16 list \<Rightarrow> AudioDecompressor \<Rightarrow> u16 \<Rightarrow> audio_error + (s16 \<times> AudioDecompressor)" where
  "NextSoundBits raw d numBits =
     (let d1 = d\<lparr> mUsedBits := mUsedBits d - uint numBits \<rparr>
      in bindE (shl32 1 (uint numBits)) (\<lambda>one.
         let ret = ucast (mWorkBits d1 AND (one - 1)) :: s16
         in bindE (shr32 (mWorkBits d1) (uint numBits)) (\<lambda>w.
            bindE (ReadNextAudioWord raw (d1\<lparr> mWorkBits := w \<rparr>) w) (\<lambda>(w', d2).
              Inr (ret, d2\<lparr> mWorkBits := w' \<rparr>)))))"

text \<open>
  \<^verbatim>\<open>SampleMatches(s16& sample, s16 bitNum)\<close>: the result pairs the returned flag with the
  sample as the reference parameter leaves it.
\<close>

definition SampleMatches :: "s16 \<Rightarrow> s16 \<Rightarrow> audio_error + (bool \<times> s16)" where
  "SampleMatches sample bitNum =
     bindE (shl32 1 (sint bitNum - 1)) (\<lambda>bitMask.
       if (scast sample :: s32) \<noteq> bitMask then
         (if (scast sample :: s32) AND bitMask \<noteq> 0
          then Inr (True, ucast (- ((scast sample :: s32) AND NOT bitMask)))
          else Inr (True, sample))
       else Inr (False, sample))"

definition SetupAudioDecodePtrs ::
  "u16 list \<Rightarrow> AudioDecompressor \<Rightarrow> audio_error + AudioDecompressor" where
  "SetupAudioDecodePtrs rawFrameBuffer d =
     (if 2 \<le> length rawFrameBuffer then
        Inr (d\<lparr> mWorkBits := ucast (rawFrameBuffer ! 0) OR push_bit 16 (ucast (rawFrameBuffer ! 1)),
                mAudioFrameDataPtr := 2,
                mUsedBits := 32 \<rparr>)
      else Inl ReadOutOfBounds)"

definition SetAudioFrameSizeBytesAndBits :: "int \<Rightarrow> AudioDecompressor \<Rightarrow> AudioDecompressor" where
  "SetAudioFrameSizeBytesAndBits audioFrameSizeBytes d =
     d\<lparr> mAudioFrameSizeBytes := audioFrameSizeBytes \<rparr>"

text \<open>
  The reader between two 16-bit reads of a stream it has read 16 bits at a time from the start:
  32 bits in the work register, word \<open>i\<close> of the frame in its low half and word \<open>i + 1\<close> in its
  high half, the next word to fetch at \<open>i + 2\<close>.
\<close>

definition reader_at :: "u16 list \<Rightarrow> AudioDecompressor \<Rightarrow> nat \<Rightarrow> bool" where
  "reader_at raw d i \<longleftrightarrow>
     mUsedBits d = 32 \<and> mAudioFrameDataPtr d = i + 2 \<and> i + 2 \<le> length raw \<and>
     mWorkBits d = ucast (raw ! i) OR push_bit 16 (ucast (raw ! (i + 1)))"

subsection \<open>The output buffer\<close>

text \<open>
  The caller's buffer of 16-bit samples. \<open>written\<close> is a trace, not program state: the indices
  the sample stores of the channel decoder went to, in program order.
\<close>

record out_buffer =
  samples :: "u16 list"
  written :: "nat list"

definition store_sample :: "int \<Rightarrow> u16 \<Rightarrow> out_buffer \<Rightarrow> audio_error + out_buffer" where
  "store_sample outPtr v ob =
     (if 0 \<le> outPtr \<and> nat outPtr < length (samples ob)
      then Inr (ob\<lparr> samples := (samples ob)[nat outPtr := v], written := written ob @ [nat outPtr] \<rparr>)
      else Inl WriteOutOfBounds)"

text \<open>
  The byte count \<^verbatim>\<open>numSamplesPerFrame * 4\<close> of the \<^verbatim>\<open>memset\<close> in \<^verbatim>\<open>decode_audio_frame\<close>: the product of
  two \<^verbatim>\<open>int\<close>s, computed in 32 bits, where it wraps.
\<close>

definition memset_count :: "int \<Rightarrow> int" where
  "memset_count numSamplesPerFrame = sint (word_of_int numSamplesPerFrame * 4 :: s32)"

text \<open>
  \<^verbatim>\<open>memset(outPtr, 0, numSamplesPerFrame * 4)\<close> on a buffer of 16-bit elements: the count is a
  multiple of 4, and \<open>count\<close> bytes are the first \<open>count div 2\<close> elements. A negative count becomes a
  \<^verbatim>\<open>size_t\<close> of at least \<open>2^31\<close>, counted here as beyond every buffer.
\<close>

definition memset_out :: "out_buffer \<Rightarrow> int \<Rightarrow> audio_error + out_buffer" where
  "memset_out ob numSamplesPerFrame =
     (let byteCount = memset_count numSamplesPerFrame in
      if byteCount < 0 then Inl NegativeSize
      else if length (samples ob) < nat byteCount div 2 then Inl WriteOutOfBounds
      else Inr (ob\<lparr> samples := replicate (nat byteCount div 2) 0
                                   @ drop (nat byteCount div 2) (samples ob) \<rparr>))"

subsection \<open>Decoding one channel\<close>

text \<open>The \<^verbatim>\<open>do { ... } while (false)\<close> block that reads one residual with up to three widths.\<close>

definition read_residual ::
  "u16 list \<Rightarrow> AudioDecompressor \<Rightarrow> s16 \<Rightarrow> s16 \<Rightarrow> s16 \<Rightarrow> audio_error + (s16 \<times> AudioDecompressor)" where
  "read_residual raw d firstWord secondWord thirdWord =
     bindE (NextSoundBits raw d (ucast firstWord)) (\<lambda>(samplePart, d1).
     bindE (SampleMatches samplePart firstWord) (\<lambda>(ok, samplePart).
     if ok then Inr (samplePart, d1) else
     bindE (NextSoundBits raw d1 (ucast secondWord)) (\<lambda>(samplePart, d2).
     bindE (SampleMatches samplePart secondWord) (\<lambda>(ok, samplePart).
     if ok then Inr (samplePart, d2) else
     bindE (NextSoundBits raw d2 (ucast thirdWord)) (\<lambda>(samplePart, d3).
     bindE (SampleMatches samplePart thirdWord) (\<lambda>(ok, samplePart).
     Inr (samplePart, d3)))))))"

text \<open>
  The rest of the loop body: predictor, state shift, new sample. The state is
  \<open>(previousValue1, previousValue2, previousValue3)\<close>.
\<close>

definition next_sample ::
  "s16 \<Rightarrow> s32 \<times> s32 \<times> s32 \<Rightarrow> s16 \<Rightarrow> audio_error + (s32 \<times> s32 \<times> s32)" where
  "next_sample useTableFlag pv samplePart =
     (case pv of (previousValue1, previousValue2, previousValue3) \<Rightarrow>
      let previous = (5 * previousValue3) - (4 * previousValue2);
          samplePartOrTableIndex = signed_drop_bit 1 (previousValue1 + previous);
          bUseTbl = (useTableFlag \<noteq> 0)
      in if bUseTbl then
           bindE (GetSoundTableValue (ucast samplePartOrTableIndex)) (\<lambda>soundTableValue.
           bindE (sub_408F50 (ucast (scast samplePart + soundTableValue))) (\<lambda>v.
             Inr (previousValue2, previousValue3, scast v)))
         else
           Inr (previousValue2, previousValue3,
                scast (ucast (samplePartOrTableIndex + scast samplePart) :: s16)))"

record channel_state =
  reader :: AudioDecompressor
  outbuf :: out_buffer
  outPtr :: int
  previousValues :: "s32 \<times> s32 \<times> s32"

text \<open>The \<^verbatim>\<open>for (counter = 0; counter < numSamplesPerFrame - 3; counter++)\<close> loop.\<close>

fun sample_loop ::
  "nat \<Rightarrow> u16 list \<Rightarrow> s16 \<Rightarrow> s16 \<Rightarrow> s16 \<Rightarrow> s16 \<Rightarrow> channel_state \<Rightarrow> audio_error + channel_state" where
  "sample_loop 0 raw useTableFlag firstWord secondWord thirdWord st = Inr st"
| "sample_loop (Suc n) raw useTableFlag firstWord secondWord thirdWord st =
     bindE (read_residual raw (reader st) firstWord secondWord thirdWord) (\<lambda>(samplePart, d).
     bindE (next_sample useTableFlag (previousValues st) samplePart) (\<lambda>pv.
     bindE (store_sample (outPtr st) (ucast (snd (snd pv))) (outbuf st)) (\<lambda>ob.
       sample_loop n raw useTableFlag firstWord secondWord thirdWord
         (st\<lparr> reader := d, outbuf := ob,
              outPtr := outPtr st + mAudioFrameSizeBytes d,
              previousValues := pv \<rparr>))))"

text \<open>Reading one seed: \<^verbatim>\<open>previousN = NextSoundBits(16); *outPtr = previousN; outPtr += stride\<close>.\<close>

definition read_seed ::
  "u16 list \<Rightarrow> AudioDecompressor \<times> out_buffer \<times> int \<Rightarrow>
     audio_error + (s32 \<times> AudioDecompressor \<times> out_buffer \<times> int)" where
  "read_seed raw st =
     (case st of (d, ob, p) \<Rightarrow>
      bindE (NextSoundBits raw d 16) (\<lambda>(previous, d').
      bindE (store_sample p previous ob) (\<lambda>ob'.
        Inr (scast previous, d', ob', p + mAudioFrameSizeBytes d'))))"

definition decode_16bit_audio_frame ::
  "u16 list \<Rightarrow> AudioDecompressor \<Rightarrow> out_buffer \<Rightarrow> int \<Rightarrow> int \<Rightarrow> bool \<Rightarrow>
     audio_error + (AudioDecompressor \<times> out_buffer)" where
  "decode_16bit_audio_frame raw d ob outPtr0 numSamplesPerFrame isLast =
     bindE (NextSoundBits raw d 16) (\<lambda>(useTableFlag, d).
     bindE (NextSoundBits raw d 16) (\<lambda>(firstWord, d).
     bindE (NextSoundBits raw d 16) (\<lambda>(secondWord, d).
     bindE (NextSoundBits raw d 16) (\<lambda>(thirdWord, d).
     bindE (read_seed raw (d, ob, outPtr0)) (\<lambda>(previousValue1, st1).
     bindE (read_seed raw st1) (\<lambda>(previousValue2, st2).
     bindE (read_seed raw st2) (\<lambda>(previousValue3, d, ob, p).
     bindE (if numSamplesPerFrame > 3
            then sample_loop (nat (numSamplesPerFrame - 3)) raw useTableFlag
                   firstWord secondWord thirdWord
                   \<lparr> reader = d, outbuf = ob, outPtr = p,
                     previousValues = (previousValue1, previousValue2, previousValue3) \<rparr>
            else Inr \<lparr> reader = d, outbuf = ob, outPtr = p,
                       previousValues = (previousValue1, previousValue2, previousValue3) \<rparr>)
       (\<lambda>st.
     bindE (if \<not> isLast then SndRelated_sub_409650 raw (reader st) else Inr (reader st)) (\<lambda>d.
       Inr (d, outbuf st))))))))))"

subsection \<open>Masher::decode_audio_frame\<close>

definition decode_channel0 ::
  "u16 list \<Rightarrow> out_buffer \<Rightarrow> int \<Rightarrow> audio_error + (AudioDecompressor \<times> out_buffer)" where
  "decode_channel0 rawFrameBuffer ob numSamplesPerFrame =
     bindE (SetupAudioDecodePtrs rawFrameBuffer
              (SetAudioFrameSizeBytesAndBits 2 AudioDecompressor_new)) (\<lambda>decompressor.
     bindE (memset_out ob numSamplesPerFrame) (\<lambda>ob0.
       decode_16bit_audio_frame rawFrameBuffer decompressor ob0 0 numSamplesPerFrame False))"

definition decode_audio_frame :: "u16 list \<Rightarrow> out_buffer \<Rightarrow> int \<Rightarrow> audio_error + out_buffer" where
  "decode_audio_frame rawFrameBuffer ob numSamplesPerFrame =
     bindE (decode_channel0 rawFrameBuffer ob numSamplesPerFrame) (\<lambda>(decompressor, ob1).
       if mAudioFrameSizeBytes decompressor = 2
       then bindE (decode_16bit_audio_frame rawFrameBuffer decompressor ob1 1 numSamplesPerFrame True)
              (\<lambda>(decompressor', ob2). Inr ob2)
       else Inr ob1)"

subsection \<open>The table lookup and the expansion as the specification words them\<close>

text \<open>
  The specification works on signed integers. \<open>T[i]\<close>, "the number of bits required to represent
  \<open>i\<close>", is listed there as \<open>T[0] = 0\<close>, \<open>T[1] = 1\<close>, \<open>T[2..3] = 2\<close>, \<open>T[4..7] = 3\<close>, ...,
  \<open>T[128..255] = 8\<close>.
\<close>

definition bits_to_represent :: "nat \<Rightarrow> nat" where
  "bits_to_represent i =
     (if i = 0 then 0 else if i < 2 then 1 else if i < 4 then 2 else if i < 8 then 3
      else if i < 16 then 4 else if i < 32 then 5 else if i < 64 then 6
      else if i < 128 then 7 else 8)"

text \<open>
  \<open>signTable\<close>: with \<open>a = |x|\<close>, \<open>h = (a >> 7) & 0xFF\<close> and \<open>t = T[h]\<close>, the magnitude is
  \<open>(t << 7) | (a >> t)\<close>, negated if \<open>x < 0\<close>.
\<close>

definition signTable_spec :: "int \<Rightarrow> int" where
  "signTable_spec x =
     (let a = \<bar>x\<bar>;
          h = drop_bit 7 a AND 0xFF;
          t = bits_to_represent (nat h);
          magnitude = push_bit 7 (int t) OR drop_bit t a
      in if x < 0 then - magnitude else magnitude)"

text \<open>
  \<open>expand\<close>: with \<open>a = |y|\<close>, \<open>b = a >> 7\<close> and \<open>m = a & 0x7F\<close>, the base is \<open>m << b\<close>, with
  \<open>1 << (b - 2)\<close> or-ed in if \<open>b \<ge> 2\<close>, negated if \<open>y < 0\<close>.
\<close>

definition expand_spec :: "int \<Rightarrow> int" where
  "expand_spec y =
     (let a = \<bar>y\<bar>;
          b = drop_bit 7 a;
          m = a AND 0x7F;
          base = push_bit (nat b) m;
          r = (if 2 \<le> b then base OR push_bit (nat (b - 2)) 1 else base)
      in if y < 0 then - r else r)"

text \<open>An integer truncated to 16 bits and read as signed: what \<^verbatim>\<open>static_cast<s16>\<close> keeps.\<close>

definition trunc16 :: "int \<Rightarrow> int" where
  "trunc16 k = sint (word_of_int k :: s16)"

subsection \<open>A two-channel example frame\<close>

text \<open>
  Channel 0: table flag 1, widths 8/8/8, seeds 10, 20, 30, residual bytes 1 and 2. Channel 1:
  table flag 0, widths 8/8/8, seeds 40, 50, 60, residual bytes 5 and \<open>0x81\<close> (that is \<open>-1\<close>). Three
  words of padding keep the reader's look-ahead inside the buffer.
\<close>

definition audio_frame_example :: "u16 list" where
  "audio_frame_example =
     [1, 8, 8, 8, 10, 20, 30, 0x0201, 0, 8, 8, 8, 40, 50, 60, 0x8105, 0, 0, 0]"

definition out_buffer_example :: out_buffer where
  "out_buffer_example =
     \<lparr> samples = [0xFFFF, 0xFFFF, 0xFFFF, 0xFFFF, 0xFFFF, 0xFFFF,
                   0xFFFF, 0xFFFF, 0xFFFF, 0xFFFF, 0xFFFF, 0xFFFF],
       written = [] \<rparr>"

section \<open>Coefficient unpacker (ddv_func7_DecodeMacroBlock_impl)\<close>

datatype video_error = InputOutOfBounds | OutputOutOfBounds | TableOutOfBounds

definition g_index_look_up_table :: "u32 list" where
  "g_index_look_up_table =
   [0x01, 0x08, 0x10, 0x09, 0x02, 0x03, 0x0A, 0x11,
    0x18, 0x20, 0x19, 0x12, 0x0B, 0x04, 0x05, 0x0C,
    0x13, 0x1A, 0x21, 0x28, 0x30, 0x29, 0x22, 0x1B,
    0x14, 0x0D, 0x06, 0x07, 0x0E, 0x15, 0x1C, 0x23,
    0x2A, 0x31, 0x38, 0x39, 0x32, 0x2B, 0x24, 0x1D,
    0x16, 0x0F, 0x17, 0x1E, 0x25, 0x2C, 0x33, 0x3A,
    0x3B, 0x34, 0x2D, 0x26, 0x1F, 0x27, 0x2E, 0x35,
    0x3C, 0x3D, 0x36, 0x2F, 0x37, 0x3E, 0x3F, 0x098E]"

definition RL_ZSCAN_MATRIX_2 :: "u32 list" where
  "RL_ZSCAN_MATRIX_2 =
   [0x00, 0x01, 0x08, 0x10, 0x09, 0x02, 0x03, 0x0A,
    0x11, 0x18, 0x20, 0x19, 0x12, 0x0B, 0x04, 0x05,
    0x0C, 0x13, 0x1A, 0x21, 0x28, 0x30, 0x29, 0x22,
    0x1B, 0x14, 0x0D, 0x06, 0x07, 0x0E, 0x15, 0x1C,
    0x23, 0x2A, 0x31, 0x38, 0x39, 0x32, 0x2B, 0x24,
    0x1D, 0x16, 0x0F, 0x17, 0x1E, 0x25, 0x2C, 0x33,
    0x3A, 0x3B, 0x34, 0x2D, 0x26, 0x1F, 0x27, 0x2E,
    0x35, 0x3C, 0x3D, 0x36, 0x2F, 0x37, 0x3E, 0x3F]"

definition g_block_related_2_dword_42B0CC :: "u32 list" where
  "g_block_related_2_dword_42B0CC =
   [0x08, 0x10, 0x09, 0x02, 0x03, 0x0A, 0x11, 0x18,
    0x20, 0x19, 0x12, 0x0B, 0x04, 0x05, 0x0C, 0x13,
    0x1A, 0x21, 0x28, 0x30, 0x29, 0x22, 0x1B, 0x14,
    0x0D, 0x06, 0x07, 0x0E, 0x15, 0x1C, 0x23, 0x2A,
    0x31, 0x38, 0x39, 0x32, 0x2B, 0x24, 0x1D, 0x16,
    0x0F, 0x17, 0x1E, 0x25, 0x2C, 0x33, 0x3A, 0x3B,
    0x34, 0x2D, 0x26, 0x1F, 0x27, 0x2E, 0x35, 0x3C,
    0x3D, 0x36, 0x2F, 0x37, 0x3E, 0x3F, 0x098E, 0x098E]"

definition g_block_related_3_dword_42B0D0 :: "u32 list" where
  "g_block_related_3_dword_42B0D0 =
   [0x10, 0x09, 0x02, 0x03, 0x0A, 0x11, 0x18, 0x20,
    0x19, 0x12, 0x0B, 0x04, 0x05, 0x0C, 0x13, 0x1A,
    0x21, 0x28, 0x30, 0x29, 0x22, 0x1B, 0x14, 0x0D,
    0x06, 0x07, 0x0E, 0x15, 0x1C, 0x23, 0x2A, 0x31,
    0x38, 0x39, 0x32, 0x2B, 0x24, 0x1D, 0x16, 0x0F,
    0x17, 0x1E, 0x25, 0x2C, 0x33, 0x3A, 0x3B, 0x34,
    0x2D, 0x26, 0x1F, 0x27, 0x2E, 0x35, 0x3C, 0x3D,
    0x36, 0x2F, 0x37, 0x3E, 0x3F, 0x098E, 0x098E, 0xF384]"

text \<open>
  Array accesses. A static table has 64 entries; the output block is the run of 32-bit slots from
  \<^verbatim>\<open>outputBlockPtr\<close> to the end of the macroblock buffer; the input is the run of 16-bit words
  from \<^verbatim>\<open>inPtr\<close> to the end of the decoded-word buffer, and advancing the pointer drops its head.
\<close>

definition table_read :: "u32 list \<Rightarrow> nat \<Rightarrow> video_error + u32" where
  "table_read t i = (if i < length t then Inr (t ! i) else Inl TableOutOfBounds)"

definition slot_read :: "u32 list \<Rightarrow> nat \<Rightarrow> video_error + u32" where
  "slot_read pOutput i = (if i < length pOutput then Inr (pOutput ! i) else Inl OutputOutOfBounds)"

definition slot_write :: "u32 list \<Rightarrow> nat \<Rightarrow> u32 \<Rightarrow> video_error + u32 list" where
  "slot_write pOutput i v =
     (if i < length pOutput then Inr (pOutput[i := v]) else Inl OutputOutOfBounds)"

definition GetHiWord :: "u32 \<Rightarrow> u16" where
  "GetHiWord v = ucast (drop_bit 16 v AND 0xFFFF)"

definition MAKELONG :: "u16 \<Rightarrow> u16 \<Rightarrow> u32" where
  "MAKELONG a b = ucast a OR push_bit 16 (ucast b)"

definition SetLoWord :: "u32 \<Rightarrow> u16 \<Rightarrow> u32" where
  "SetLoWord v lo = MAKELONG lo (GetHiWord v)"

definition SetHiWord :: "u32 \<Rightarrow> u16 \<Rightarrow> u32" where
  "SetHiWord v hi = MAKELONG (ucast (v AND 0xFFFF)) hi"

text \<open>The loop \<^verbatim>\<open>while (*pInput == 0xFE00u) pInput++;\<close>.\<close>

fun skip_eob :: "u16 list \<Rightarrow> u16 list" where
  "skip_eob [] = []"
| "skip_eob (w # ws) = (if w = 0xFE00 then skip_eob ws else w # ws)"

text \<open>
  The coefficient both branches store: high half from \<^verbatim>\<open>v24\<close>, low half
  \<^verbatim>\<open>(pTable[q_scale] * (v24 >> 22) + 4) >> 3\<close>. The product of a \<^verbatim>\<open>u32\<close> and an \<^verbatim>\<open>int\<close> is
  unsigned, so the last shift is logical.
\<close>

definition dequantised :: "u32 \<Rightarrow> u32 \<Rightarrow> u32" where
  "dequantised tableValue v24 =
     SetLoWord (SetHiWord 0 (GetHiWord v24))
       (ucast (drop_bit 3 (tableValue * signed_drop_bit 22 v24 + 4)))"

text \<open>
  The \<^verbatim>\<open>do { ... } while (counter < 63)\<close> loop taken when bit 0 of the header word is set.
  \<open>tableIdx\<close> is the position of \<^verbatim>\<open>pTable\<close> inside the dequantisation array.
\<close>

fun incremental_loop ::
  "u32 list \<Rightarrow> u16 list \<Rightarrow> u32 list \<Rightarrow> nat \<Rightarrow> nat \<Rightarrow> video_error + (u16 list \<times> u32 list)" where
  "incremental_loop qtable [] pOutput tableIdx counter = Inl InputOutOfBounds"
| "incremental_loop qtable (w # pInput) pOutput tableIdx counter =
     (let macroBlockWord = (ucast w :: u32) in
      if macroBlockWord = 0xFE00 then Inr (pInput, pOutput) else
      let q_scale = unat (drop_bit 10 macroBlockWord);
          counter = counter + q_scale
      in bindE (table_read g_index_look_up_table counter) (\<lambda>lookedUpIndex.
         bindE (slot_read pOutput (unat lookedUpIndex)) (\<lambda>old.
         let v24 = old + push_bit 22 macroBlockWord in
         bindE (table_read qtable (tableIdx + q_scale)) (\<lambda>tableValue.
         bindE (slot_write pOutput (unat lookedUpIndex) (dequantised tableValue v24)) (\<lambda>pOutput.
         let counter = counter + 1 in
         if counter < 63
         then incremental_loop qtable pInput pOutput (tableIdx + q_scale + 1) counter
         else Inr (pInput, pOutput))))))"

text \<open>
  The inner loop of the other branch: \<^verbatim>\<open>k\<close> starts at \<^verbatim>\<open>q_scale + 1\<close>; each round decrements it,
  looks \<^verbatim>\<open>idx\<close> up, and unless \<^verbatim>\<open>k\<close> has reached 0 zeroes that slot and advances \<^verbatim>\<open>counter\<close>.
  The first argument is \<^verbatim>\<open>k - 1\<close> on entry.
\<close>

fun zero_run :: "nat \<Rightarrow> u32 list \<Rightarrow> nat \<Rightarrow> video_error + (nat \<times> u32 list \<times> nat)" where
  "zero_run 0 pOutput counter =
     bindE (table_read g_index_look_up_table counter) (\<lambda>idx. Inr (unat idx, pOutput, counter))"
| "zero_run (Suc k) pOutput counter =
     bindE (table_read g_index_look_up_table counter) (\<lambda>idx.
     bindE (slot_write pOutput (unat idx) 0) (\<lambda>pOutput.
       zero_run k pOutput (counter + 1)))"

text \<open>
  The outer \<^verbatim>\<open>while (1)\<close> of that branch. \<open>Inl\<close> is an error; \<open>Inr (True, ...)\<close> is the early
  \<^verbatim>\<open>return\<close> at \<^verbatim>\<open>counter >= 63\<close>; \<open>Inr (False, ...)\<close> is the \<^verbatim>\<open>break\<close> at the end-of-block word.
\<close>

fun run_skip_loop ::
  "u32 list \<Rightarrow> u16 list \<Rightarrow> u32 list \<Rightarrow> nat \<Rightarrow> nat \<Rightarrow>
     video_error + (bool \<times> u16 list \<times> u32 list \<times> nat)" where
  "run_skip_loop qtable [] pOutput tableIdx counter = Inl InputOutOfBounds"
| "run_skip_loop qtable (w # pInput) pOutput tableIdx counter =
     (let macroBlockWord = (ucast w :: u32) in
      if macroBlockWord = 0xFE00 then Inr (False, pInput, pOutput, counter) else
      let q_scale = unat (drop_bit 10 macroBlockWord);
          v24 = push_bit 22 macroBlockWord
      in bindE (zero_run q_scale pOutput counter) (\<lambda>(idx, pOutput, counter).
         bindE (table_read qtable (tableIdx + q_scale)) (\<lambda>tableValue.
         bindE (slot_write pOutput idx (dequantised tableValue v24)) (\<lambda>pOutput.
         let counter = counter + 1 in
         if counter \<ge> 63 then Inr (True, pInput, pOutput, counter)
         else run_skip_loop qtable pInput pOutput (tableIdx + q_scale + 1) counter))))"

text \<open>The three nested \<^verbatim>\<open>if (counter3 & 3)\<close> steps, one slot each.\<close>

fun zero_unaligned :: "nat \<Rightarrow> nat \<Rightarrow> u32 list \<Rightarrow> video_error + (nat \<times> u32 list)" where
  "zero_unaligned 0 counter3 pOutput = Inr (counter3, pOutput)"
| "zero_unaligned (Suc n) counter3 pOutput =
     (if counter3 mod 4 \<noteq> 0 then
        bindE (table_read RL_ZSCAN_MATRIX_2 counter3) (\<lambda>idx.
        bindE (slot_write pOutput (unat idx) 0) (\<lambda>pOutput.
          zero_unaligned n (counter3 + 1) pOutput))
      else Inr (counter3, pOutput))"

text \<open>The loop \<^verbatim>\<open>while (counter3 != 64) { four stores; counter3 += 4; }\<close>.\<close>

function zero_tail :: "nat \<Rightarrow> u32 list \<Rightarrow> video_error + u32 list" where
  "zero_tail counter3 pOutput =
     (if counter3 \<noteq> 64 then
        bindE (table_read RL_ZSCAN_MATRIX_2 counter3) (\<lambda>i0.
        bindE (slot_write pOutput (unat i0) 0) (\<lambda>pOutput.
        bindE (table_read g_index_look_up_table counter3) (\<lambda>i1.
        bindE (slot_write pOutput (unat i1) 0) (\<lambda>pOutput.
        bindE (table_read g_block_related_2_dword_42B0CC counter3) (\<lambda>i2.
        bindE (slot_write pOutput (unat i2) 0) (\<lambda>pOutput.
        bindE (table_read g_block_related_3_dword_42B0D0 counter3) (\<lambda>i3.
        bindE (slot_write pOutput (unat i3) 0) (\<lambda>pOutput.
          if counter3 < 64 then zero_tail (counter3 + 4) pOutput
          else Inl TableOutOfBounds))))))))
      else Inr pOutput)"
  by pat_completeness auto
termination
  by (relation "measure (\<lambda>(c, p). 64 - c)") auto

declare zero_tail.simps [simp del]

text \<open>\<^verbatim>\<open>memset(pOutput + 1, 0, 0xFC)\<close>: 63 slots from slot 1.\<close>

definition memset_slots :: "u32 list \<Rightarrow> video_error + u32 list" where
  "memset_slots pOutput =
     (if 64 \<le> length pOutput
      then Inr (take 1 pOutput @ replicate 63 0 @ drop 64 pOutput)
      else Inl OutputOutOfBounds)"

text \<open>
  The header expression \<^verbatim>\<open>(v1 << 10) + 2 * (*pInput << 21 >> 22)\<close>: the \<^verbatim>\<open>u16\<close> is promoted to
  \<^verbatim>\<open>int\<close>, shifted left (wrapping), then shifted right arithmetically.
\<close>

definition block_header_slot :: "bool \<Rightarrow> u16 \<Rightarrow> u32" where
  "block_header_slot isYBlock h =
     push_bit 10 (if isYBlock then 1 else 0)
       + 2 * signed_drop_bit 22 (push_bit 21 (ucast h :: u32))"

definition ddv_func7_DecodeMacroBlock_impl ::
  "qtables \<Rightarrow> u16 list \<Rightarrow> u32 list \<Rightarrow> bool \<Rightarrow> video_error + (u16 list \<times> u32 list)" where
  "ddv_func7_DecodeMacroBlock_impl q inPtr outputBlockPtr isYBlock =
     (let qtable = (if isYBlock then g_252_buffer_unk_63580C q else g_252_buffer_unk_635A0C q) in
      case skip_eob inPtr of
        [] \<Rightarrow> Inl InputOutOfBounds
      | h # pInput \<Rightarrow>
          bindE (slot_write outputBlockPtr 0 (block_header_slot isYBlock h)) (\<lambda>pOutput.
          if h AND 1 \<noteq> 0 then incremental_loop qtable pInput pOutput 1 0
          else
            bindE (run_skip_loop qtable pInput pOutput 1 0) (\<lambda>(returned, pInput, pOutput, counter).
            if returned then Inr (pInput, pOutput)
            else if counter \<noteq> 0 then
              bindE (zero_unaligned 3 (counter + 1) pOutput) (\<lambda>(counter3, pOutput).
              bindE (zero_tail counter3 pOutput) (\<lambda>pOutput. Inr (pInput, pOutput)))
            else bindE (memset_slots pOutput) (\<lambda>pOutput. Inr (pInput, pOutput)))))"

subsection \<open>Example inputs for the unpacker\<close>

text \<open>Dequantisation arrays as a frame with \<open>qscale = 0\<close> leaves them: every entry 16.\<close>

definition qtables_example :: qtables where
  "qtables_example = \<lparr> g_252_buffer_unk_63580C = replicate 64 16,
                       g_252_buffer_unk_635A0C = replicate 64 16 \<rparr>"

text \<open>
  A stale end-of-block word, the header \<open>0x07FE\<close> (bits 10..1 all set: DC \<open>-1\<close>, flag bit clear),
  two run-level words, the end-of-block word, and the first word of the next block.
\<close>

definition block_words_example :: "u16 list" where
  "block_words_example = [0xFE00, 0x07FE, 0x0405, 0x0BFD, 0xFE00, 7]"

section \<open>Video bitstream decode (decode_bitstream)\<close>

text \<open>
  The two lookup tables live in a header outside the sources at hand, so they are parameters of
  the model: an entry of \<^verbatim>\<open>gTbl1\<close> has \<^verbatim>\<open>mBitsToShift\<close> and \<^verbatim>\<open>mOutputWord\<close>, an entry of
  \<^verbatim>\<open>gTbl2\<close> has \<^verbatim>\<open>mBitsToShift\<close> and three output words. The indices the code forms are below
  \<open>2^17\<close> and \<open>2^13\<close>.
\<close>

record tbl1_entry =
  mBitsToShift1 :: "8 word"
  mOutputWord :: u16

record tbl2_entry =
  mBitsToShift2 :: "8 word"
  mOutputWord1 :: u16
  mOutputWord2 :: u16
  mOutputWord3 :: u16

text \<open>
  The local variables of \<^verbatim>\<open>decode_bitstream\<close>. \<^verbatim>\<open>usedBitCount\<close> is a \<^verbatim>\<open>char\<close>: eight bits, two's
  complement. \<open>bs_out\<close> is the whole output buffer and \<open>bs_pOutput\<close> the index \<^verbatim>\<open>pOutput\<close> points
  at; \<open>bs_rawBitStreamPtr\<close> is an index into the frame data.
\<close>

record bitstream_state =
  bs_ret :: s32
  bs_workBits :: u32
  bs_rawWord4 :: u32
  bs_usedBitCount :: "8 word"
  bs_rawBitStreamPtr :: nat
  bs_pOutput :: nat
  bs_out :: "u16 list"
  bs_table_index_2 :: nat

definition ExtractBits :: "u32 \<Rightarrow> nat \<Rightarrow> u32" where
  "ExtractBits v numBits = drop_bit (32 - numBits) v"

text \<open>\<^verbatim>\<open>SkipBits\<close>: a shift by a \<^verbatim>\<open>char\<close> count that is negative or at least 32 is undefined.\<close>

datatype bitstream_error = FrameOutOfBounds | DecodedOutOfBounds | ShiftOutOfRange

definition SkipBits :: "8 word \<Rightarrow> bitstream_state \<Rightarrow> bitstream_error + bitstream_state" where
  "SkipBits numBits s =
     (if 0 \<le> sint numBits \<and> sint numBits < 32
      then Inr (s\<lparr> bs_workBits := push_bit (nat (sint numBits)) (bs_workBits s),
                    bs_usedBitCount := bs_usedBitCount s + numBits \<rparr>)
      else Inl ShiftOutOfRange)"

definition GetBits :: "u16 list \<Rightarrow> bitstream_state \<Rightarrow> bitstream_error + bitstream_state" where
  "GetBits pFrameData s =
     (if bs_usedBitCount s AND 16 \<noteq> 0 then
        (let used = bs_usedBitCount s AND 15 in
         if bs_rawBitStreamPtr s < length pFrameData then
           (let rawWord4 = push_bit (unat used) (ucast (pFrameData ! bs_rawBitStreamPtr s) :: u32)
            in Inr (s\<lparr> bs_usedBitCount := used,
                          bs_rawWord4 := rawWord4,
                          bs_rawBitStreamPtr := bs_rawBitStreamPtr s + 1,
                          bs_workBits := bs_workBits s OR rawWord4 \<rparr>))
         else Inl FrameOutOfBounds)
      else Inr s)"

text \<open>\<^verbatim>\<open>*pOutput++ = w\<close>.\<close>

definition emit :: "u16 \<Rightarrow> bitstream_state \<Rightarrow> bitstream_error + bitstream_state" where
  "emit w s =
     (if bs_pOutput s < length (bs_out s)
      then Inr (s\<lparr> bs_out := (bs_out s)[bs_pOutput s := w], bs_pOutput := bs_pOutput s + 1 \<rparr>)
      else Inl DecodedOutOfBounds)"

definition OutputWordAndAdvance ::
  "u16 list \<Rightarrow> bitstream_state \<Rightarrow> bitstream_error + bitstream_state" where
  "OutputWordAndAdvance pFrameData s =
     bindE (emit (ucast (drop_bit 16 (bs_workBits s))) s) (\<lambda>s.
       if bs_rawBitStreamPtr s < length pFrameData then
         (if 0 \<le> sint (bs_usedBitCount s) \<and> sint (bs_usedBitCount s) < 32 then
            (let rawWord4 = push_bit (nat (sint (bs_usedBitCount s)))
                              (ucast (pFrameData ! bs_rawBitStreamPtr s) :: u32)
             in Inr (s\<lparr> bs_rawWord4 := rawWord4,
                           bs_rawBitStreamPtr := bs_rawBitStreamPtr s + 1,
                           bs_workBits := rawWord4 OR push_bit 16 (bs_workBits s) \<rparr>))
          else Inl ShiftOutOfRange)
       else Inl FrameOutOfBounds)"

definition MASK_11_BITS :: u32 where "MASK_11_BITS = 0x7FF"
definition MASK_10_BITS :: u32 where "MASK_10_BITS = 0x3FF"
definition MDEC_END :: u16 where "MDEC_END = 0xFE00"

text \<open>
  The nested loops of \<^verbatim>\<open>decode_bitstream\<close> form a machine with five program points:
  \<^item> \<open>Lookup\<close>: the head of the innermost loop, where the top 13 bits of the work register
    choose between the two tables;
  \<^item> \<open>Narrow\<close>: just after that loop, where the \<^verbatim>\<open>gTbl2\<close> entry's shift is consumed and its first
    output word is loaded;
  \<^item> \<open>Out1\<close>, \<open>Out2\<close>, \<open>Out3\<close>: the three places that store the loaded word of the \<^verbatim>\<open>gTbl2\<close>
    entry (\<^verbatim>\<open>*pOutput++ = rawWord4\<close>) and test it for the end of the block.
  Every \<^verbatim>\<open>break\<close>, loop exit and loop repetition of the source is one transition.
\<close>

datatype phase = Lookup | Narrow | Out1 | Out2 | Out3

datatype step_result =
    Fault bitstream_error
  | Return s32 bitstream_state
  | Continue phase bitstream_state

definition lo16 :: "u32 \<Rightarrow> u16" where
  "lo16 v = ucast v"

definition set_lo :: "u16 \<Rightarrow> bitstream_state \<Rightarrow> bitstream_state" where
  "set_lo w s = s\<lparr> bs_rawWord4 := SetLoWord (bs_rawWord4 s) w \<rparr>"

text \<open>
  The block that follows the store of an end-of-block word at \<open>Out1\<close> and \<open>Out2\<close> (and, with
  \<^verbatim>\<open>rawWord4\<close> in place of \<^verbatim>\<open>v15\<close>, at \<open>Out3\<close>): take 11 bits; equal to \<^verbatim>\<open>MASK_10_BITS\<close> means
  return, anything else is stored as the next word. The flag of the result is \<open>True\<close> for
  the \<^verbatim>\<open>return ret\<close>.
\<close>

definition end_of_block ::
  "u16 list \<Rightarrow> bitstream_state \<Rightarrow> bitstream_error + (bitstream_state \<times> bool)" where
  "end_of_block pFrameData s =
     (let v15 = ExtractBits (bs_workBits s) 11 in
      bindE (SkipBits 11 s) (\<lambda>s.
        if v15 = MASK_10_BITS then Inr (s, True)
        else
          (let s = s\<lparr> bs_rawWord4 := v15 AND MASK_11_BITS \<rparr> in
           bindE (emit (lo16 (bs_rawWord4 s)) s) (\<lambda>s.
           bindE (GetBits pFrameData s) (\<lambda>s. Inr (s, False))))))"

text \<open>
  What follows a store at \<open>Out1\<close> (with \<open>next_word\<close> the entry's second word and \<open>next_phase\<close>
  \<open>Out2\<close>) and at \<open>Out2\<close> (third word, \<open>Out3\<close>): the end-of-block test, then the next word of the
  entry is loaded; zero repeats the enclosing \<^verbatim>\<open>do\<close> loop, the escape value stores a literal and
  repeats the enclosing \<^verbatim>\<open>while\<close> loop, anything else goes on to the next store.
\<close>

definition after_store ::
  "u16 list \<Rightarrow> u16 \<Rightarrow> phase \<Rightarrow> bitstream_state \<Rightarrow> step_result" where
  "after_store pFrameData next_word next_phase s =
     (case (if lo16 (bs_rawWord4 s) = MDEC_END then end_of_block pFrameData s else Inr (s, False)) of
        Inl e \<Rightarrow> Fault e
      | Inr (s, returned) \<Rightarrow>
          if returned then Return (bs_ret s) s
          else
            (let s = set_lo next_word s in
             if lo16 (bs_rawWord4 s) = 0 then Continue Lookup s
             else if lo16 (bs_rawWord4 s) \<noteq> 0x7C1F then Continue next_phase s
             else (case OutputWordAndAdvance pFrameData s of
                     Inl e \<Rightarrow> Fault e
                   | Inr s \<Rightarrow> Continue Lookup s)))"

definition step ::
  "(nat \<Rightarrow> tbl1_entry) \<Rightarrow> (nat \<Rightarrow> tbl2_entry) \<Rightarrow> u16 list \<Rightarrow> phase \<Rightarrow> bitstream_state \<Rightarrow>
     step_result" where
  "step gTbl1 gTbl2 pFrameData p s =
     (case p of
        Lookup \<Rightarrow>
          (let s = s\<lparr> bs_table_index_2 := unat (ExtractBits (bs_workBits s) 13) \<rparr> in
           if bs_table_index_2 s \<ge> 32 then Continue Narrow s
           else
             (let table_index_1 = unat (ExtractBits (bs_workBits s) 17) in
              case bindE (SkipBits 8 s) (\<lambda>s.
                   bindE (GetBits pFrameData s) (\<lambda>s.
                   bindE (SkipBits (mBitsToShift1 (gTbl1 table_index_1)) s) (\<lambda>s.
                   bindE (GetBits pFrameData s) (\<lambda>s.
                     emit (mOutputWord (gTbl1 table_index_1)) s)))) of
                Inl e \<Rightarrow> Fault e
              | Inr s \<Rightarrow> Continue Lookup s))
      | Narrow \<Rightarrow>
          (case bindE (SkipBits (mBitsToShift2 (gTbl2 (bs_table_index_2 s))) s) (\<lambda>s.
                bindE (GetBits pFrameData s) (\<lambda>s.
                  Inr (set_lo (mOutputWord1 (gTbl2 (bs_table_index_2 s))) s))) of
             Inl e \<Rightarrow> Fault e
           | Inr s \<Rightarrow>
               if lo16 (bs_rawWord4 s) \<noteq> 0x7C1F then Continue Out1 s
               else (case OutputWordAndAdvance pFrameData s of
                       Inl e \<Rightarrow> Fault e
                     | Inr s \<Rightarrow> Continue Lookup s))
      | Out1 \<Rightarrow>
          (case emit (lo16 (bs_rawWord4 s)) s of
             Inl e \<Rightarrow> Fault e
           | Inr s \<Rightarrow> after_store pFrameData (mOutputWord2 (gTbl2 (bs_table_index_2 s))) Out2 s)
      | Out2 \<Rightarrow>
          (case emit (lo16 (bs_rawWord4 s)) s of
             Inl e \<Rightarrow> Fault e
           | Inr s \<Rightarrow> after_store pFrameData (mOutputWord3 (gTbl2 (bs_table_index_2 s))) Out3 s)
      | Out3 \<Rightarrow>
          (case emit (lo16 (bs_rawWord4 s)) s of
             Inl e \<Rightarrow> Fault e
           | Inr s \<Rightarrow>
               if lo16 (bs_rawWord4 s) \<noteq> MDEC_END then Continue Lookup s
               else
                 (let s = s\<lparr> bs_rawWord4 := ExtractBits (bs_workBits s) 11 \<rparr> in
                  case SkipBits 11 s of
                    Inl e \<Rightarrow> Fault e
                  | Inr s \<Rightarrow>
                      if bs_rawWord4 s = MASK_10_BITS then Return (bs_ret s) s
                      else (case bindE (emit (lo16 (bs_rawWord4 s)) s) (GetBits pFrameData) of
                              Inl e \<Rightarrow> Fault e
                            | Inr s \<Rightarrow> Continue Lookup s))))"

text \<open>
  Every transition that continues either stores a word or moves from \<open>Lookup\<close> to \<open>Narrow\<close> or
  from \<open>Narrow\<close> to \<open>Out1\<close>, so the room left in the output buffer bounds the run.
\<close>

definition decode_measure :: "phase \<Rightarrow> bitstream_state \<Rightarrow> nat" where
  "decode_measure p s =
     3 * (length (bs_out s) - bs_pOutput s) + (case p of Lookup \<Rightarrow> 2 | Narrow \<Rightarrow> 1 | _ \<Rightarrow> 0)"

definition out_room :: "bitstream_state \<Rightarrow> nat" where
  "out_room s = length (bs_out s) - bs_pOutput s"

lemma bindE_Inr_iff: "bindE m f = Inr y \<longleftrightarrow> (\<exists>x. m = Inr x \<and> f x = Inr y)"
  by (cases m) (simp_all add: bindE_def)

lemma emit_room: "emit w s = Inr s' \<Longrightarrow> out_room s' < out_room s"
  by (auto simp: emit_def out_room_def split: if_splits)

lemma SkipBits_room: "SkipBits n s = Inr s' \<Longrightarrow> out_room s' = out_room s"
  by (auto simp: SkipBits_def out_room_def split: if_splits)

lemma GetBits_room: "GetBits f s = Inr s' \<Longrightarrow> out_room s' = out_room s"
  by (auto simp: GetBits_def out_room_def Let_def split: if_splits)

lemma set_lo_room: "out_room (set_lo w s) = out_room s"
  by (simp add: set_lo_def out_room_def)

lemma OutputWordAndAdvance_room: "OutputWordAndAdvance f s = Inr s' \<Longrightarrow> out_room s' < out_room s"
  by (auto simp: OutputWordAndAdvance_def bindE_Inr_iff Let_def emit_def out_room_def
           split: if_splits)

lemma end_of_block_room: "end_of_block f s = Inr (s', r) \<Longrightarrow> out_room s' \<le> out_room s"
  by (auto simp: end_of_block_def bindE_Inr_iff Let_def out_room_def
           dest!: SkipBits_room emit_room GetBits_room split: if_splits)

lemma after_store_room:
  "after_store f w p s = Continue p' s' \<Longrightarrow> out_room s' \<le> out_room s"
  by (auto simp: after_store_def Let_def set_lo_room
           dest!: end_of_block_room OutputWordAndAdvance_room
           split: if_splits sum.splits prod.splits)

lemma step_decreases:
  assumes "step gTbl1 gTbl2 pFrameData p s = Continue p' s'"
  shows "decode_measure p' s' < decode_measure p s"
proof -
  have m: "decode_measure q t = 3 * out_room t + (case q of Lookup \<Rightarrow> 2 | Narrow \<Rightarrow> 1 | _ \<Rightarrow> 0)"
    for q t by (simp add: decode_measure_def out_room_def)
  have r: "(case q of Lookup \<Rightarrow> 2 | Narrow \<Rightarrow> 1 | _ \<Rightarrow> 0) \<le> (2 :: nat)" for q
    by (cases q) simp_all
  show ?thesis
  proof (cases p)
    case Lookup
    show ?thesis
    proof (cases "unat (ExtractBits (bs_workBits s) 13) \<ge> 32")
      case True
      with assms Lookup show ?thesis
        by (auto simp: step_def Let_def decode_measure_def)
    next
      case False
      with assms Lookup obtain s1 s2 s3 s4 where
        a1: "SkipBits 8 (s\<lparr> bs_table_index_2 := unat (ExtractBits (bs_workBits s) 13) \<rparr>) = Inr s1" and
        a2: "GetBits pFrameData s1 = Inr s2" and
        a3: "SkipBits (mBitsToShift1 (gTbl1 (unat (ExtractBits (bs_workBits s) 17)))) s2 = Inr s3" and
        a4: "GetBits pFrameData s3 = Inr s4" and
        a5: "emit (mOutputWord (gTbl1 (unat (ExtractBits (bs_workBits s) 17)))) s4 = Inr s'"
        by (auto simp: step_def Let_def bindE_Inr_iff split: sum.splits)
      have "out_room (s\<lparr> bs_table_index_2 := unat (ExtractBits (bs_workBits s) 13) \<rparr>) = out_room s"
        by (simp add: out_room_def)
      with SkipBits_room[OF a1] GetBits_room[OF a2] SkipBits_room[OF a3] GetBits_room[OF a4]
           emit_room[OF a5]
      have "out_room s' < out_room s" by simp
      with r[of p'] show ?thesis unfolding m by simp
    qed
  next
    case Narrow
    let ?m = "bindE (SkipBits (mBitsToShift2 (gTbl2 (bs_table_index_2 s))) s) (\<lambda>s.
              bindE (GetBits pFrameData s) (\<lambda>s.
                Inr (set_lo (mOutputWord1 (gTbl2 (bs_table_index_2 s))) s)))"
    from assms Narrow obtain t where
      t: "?m = Inr t" and
      b: "(if lo16 (bs_rawWord4 t) \<noteq> 0x7C1F
           then Continue Out1 t
           else (case OutputWordAndAdvance pFrameData t of
                   Inl e \<Rightarrow> Fault e | Inr s \<Rightarrow> Continue Lookup s)) = Continue p' s'"
      by (cases ?m) (simp_all add: step_def)
    from t have eq: "out_room t = out_room s"
      by (auto simp: bindE_Inr_iff set_lo_room SkipBits_room GetBits_room)
    show ?thesis
    proof (cases "lo16 (bs_rawWord4 t) \<noteq> 0x7C1F")
      case True
      with b eq Narrow show ?thesis unfolding m by auto
    next
      case False
      with b obtain u where "OutputWordAndAdvance pFrameData t = Inr u"
        "p' = Lookup" "s' = u"
        by (auto split: sum.splits)
      with OutputWordAndAdvance_room[OF this(1)] eq Narrow show ?thesis unfolding m by simp
    qed
  next
    case Out1
    with assms obtain s1 where
      e: "emit (lo16 (bs_rawWord4 s)) s = Inr s1" and
      a: "after_store pFrameData (mOutputWord2 (gTbl2 (bs_table_index_2 s1))) Out2 s1 = Continue p' s'"
      by (auto simp: step_def split: sum.splits)
    from emit_room[OF e] after_store_room[OF a] have "out_room s' < out_room s"
      by simp
    with r[of p'] show ?thesis unfolding m by simp
  next
    case Out2
    with assms obtain s1 where
      e: "emit (lo16 (bs_rawWord4 s)) s = Inr s1" and
      a: "after_store pFrameData (mOutputWord3 (gTbl2 (bs_table_index_2 s1))) Out3 s1 = Continue p' s'"
      by (auto simp: step_def split: sum.splits)
    from emit_room[OF e] after_store_room[OF a] have "out_room s' < out_room s"
      by simp
    with r[of p'] show ?thesis unfolding m by simp
  next
    case Out3
    with assms obtain s1 where e: "emit (lo16 (bs_rawWord4 s)) s = Inr s1" and
      rest: "(if lo16 (bs_rawWord4 s1) \<noteq> MDEC_END then Continue Lookup s1
              else
                (let s = s1\<lparr> bs_rawWord4 := ExtractBits (bs_workBits s1) 11 \<rparr> in
                 case SkipBits 11 s of
                   Inl e \<Rightarrow> Fault e
                 | Inr s \<Rightarrow>
                     if bs_rawWord4 s = MASK_10_BITS then Return (bs_ret s) s
                     else (case bindE (emit (lo16 (bs_rawWord4 s)) s) (GetBits pFrameData) of
                             Inl e \<Rightarrow> Fault e
                           | Inr s \<Rightarrow> Continue Lookup s))) = Continue p' s'"
      by (auto simp: step_def split: sum.splits)
    have "out_room s' \<le> out_room s1"
      using rest
      by (auto simp: Let_def bindE_Inr_iff out_room_def
               dest!: SkipBits_room emit_room GetBits_room split: if_splits sum.splits)
    with emit_room[OF e] have "out_room s' < out_room s" by simp
    with r[of p'] show ?thesis unfolding m by simp
  qed
qed

text \<open>The machine run to its end: the loops of \<^verbatim>\<open>decode_bitstream\<close>.\<close>

function decode_loop ::
  "(nat \<Rightarrow> tbl1_entry) \<Rightarrow> (nat \<Rightarrow> tbl2_entry) \<Rightarrow> u16 list \<Rightarrow> phase \<Rightarrow> bitstream_state \<Rightarrow>
     bitstream_error + (s32 \<times> bitstream_state)" where
  "decode_loop gTbl1 gTbl2 pFrameData p s =
     (case step gTbl1 gTbl2 pFrameData p s of
        Fault e \<Rightarrow> Inl e
      | Return r s' \<Rightarrow> Inr (r, s')
      | Continue p' s' \<Rightarrow> decode_loop gTbl1 gTbl2 pFrameData p' s')"
  by pat_completeness auto
termination
  by (relation "measure (\<lambda>(t1, t2, f, p, s). decode_measure p s)") (auto dest: step_decreases)

declare decode_loop.simps [simp del]

text \<open>
  \<^verbatim>\<open>decode_bitstream(pFrameData, pOutput)\<close> before its loops: the first word of the frame is kept
  as the return value, the next two fill the work register (the first of them in the high
  half), 11 bits are stored as the first output word, and \<^verbatim>\<open>rawBitStreamPtr = pFrameData + 3\<close>.
\<close>

definition decode_bitstream_init ::
  "u16 list \<Rightarrow> u16 list \<Rightarrow> bitstream_error + bitstream_state" where
  "decode_bitstream_init pFrameData pOutput =
     (if length pFrameData < 3 then Inl FrameOutOfBounds
      else
        (let ret = ucast (pFrameData ! 0);
             workBits = push_bit 16 (ucast (pFrameData ! 2)) OR ucast (pFrameData ! 1);
             workBits = push_bit 16 workBits OR drop_bit 16 workBits;
             rawWord4 = ExtractBits workBits 11;
             s = \<lparr> bs_ret = ret, bs_workBits = workBits, bs_rawWord4 = rawWord4,
                   bs_usedBitCount = 0, bs_rawBitStreamPtr = 0, bs_pOutput = 0,
                   bs_out = pOutput, bs_table_index_2 = 0 \<rparr>
         in bindE (SkipBits 11 s) (\<lambda>s.
            bindE (emit (lo16 rawWord4) s) (\<lambda>s.
              Inr (s\<lparr> bs_rawBitStreamPtr := 3 \<rparr>)))))"

definition decode_bitstream ::
  "(nat \<Rightarrow> tbl1_entry) \<Rightarrow> (nat \<Rightarrow> tbl2_entry) \<Rightarrow> u16 list \<Rightarrow> u16 list \<Rightarrow>
     bitstream_error + (s32 \<times> bitstream_state)" where
  "decode_bitstream gTbl1 gTbl2 pFrameData pOutput =
     bindE (decode_bitstream_init pFrameData pOutput)
       (decode_loop gTbl1 gTbl2 pFrameData Lookup)"

text \<open>The first \<open>n\<close> transitions of the machine, for looking at a run part of the way.\<close>

fun run_steps ::
  "(nat \<Rightarrow> tbl1_entry) \<Rightarrow> (nat \<Rightarrow> tbl2_entry) \<Rightarrow> u16 list \<Rightarrow> nat \<Rightarrow> phase \<Rightarrow>
     bitstream_state \<Rightarrow> step_result" where
  "run_steps gTbl1 gTbl2 pFrameData 0 p s = Continue p s"
| "run_steps gTbl1 gTbl2 pFrameData (Suc n) p s =
     (case step gTbl1 gTbl2 pFrameData p s of
        Fault e \<Rightarrow> Fault e
      | Return r s' \<Rightarrow> Return r s'
      | Continue p' s' \<Rightarrow> run_steps gTbl1 gTbl2 pFrameData n p' s')"

subsection \<open>Example tables and frames for the bitstream decoder\<close>

text \<open>
  A small prefix code standing in for the two tables. In \<open>gTbl2_example\<close> the two leading bits
  of the 13-bit index select the entry: \<open>10\<close> is the end-of-block code, \<open>11\<close> the escape code (its
  second output word is \<open>0x1234\<close>), \<open>01\<close> a single run-level word, and \<open>00\<close> a 5-bit code with
  three output words, the last of them the end of the block.
\<close>

definition gTbl1_example :: "nat \<Rightarrow> tbl1_entry" where
  "gTbl1_example i = \<lparr> mBitsToShift1 = 1, mOutputWord = 0x0001 \<rparr>"

definition gTbl2_example :: "nat \<Rightarrow> tbl2_entry" where
  "gTbl2_example i =
     (if i div 2048 = 2 then
        \<lparr> mBitsToShift2 = 2, mOutputWord1 = 0xFE00, mOutputWord2 = 0, mOutputWord3 = 0 \<rparr>
      else if i div 2048 = 3 then
        \<lparr> mBitsToShift2 = 2, mOutputWord1 = 0x7C1F, mOutputWord2 = 0x1234, mOutputWord3 = 0 \<rparr>
      else if i div 2048 = 1 then
        \<lparr> mBitsToShift2 = 2, mOutputWord1 = 0x0405, mOutputWord2 = 0, mOutputWord3 = 0 \<rparr>
      else
        \<lparr> mBitsToShift2 = 5, mOutputWord1 = 0x0801, mOutputWord2 = 0x0802, mOutputWord3 = 0xFE00 \<rparr>)"

text \<open>
  Frame quantisation scale 3, then the bits: header \<open>0x155\<close> (11 bits); escape code \<open>11\<close> with the
  literal \<open>0xFE00\<close>; the codes \<open>01\<close> and \<open>11\<close> with the literal \<open>0xFEAB\<close>; the end-of-block code \<open>10\<close>;
  the 11 bits \<open>0x3FF\<close>. The 11 bits that follow the first literal are also \<open>0x3FF\<close>.
\<close>

definition frame_literal_eob :: "u16 list" where
  "frame_literal_eob = [3, 0x2ABF, 0xF003, 0xFF55, 0xCFFC, 0, 0, 0]"


definition literal_stored_state :: bitstream_state where
  "literal_stored_state =
     \<lparr> bs_ret = 3, bs_workBits = 0x7FEAA000, bs_rawWord4 = 0x1FEAA000, bs_usedBitCount = 13,
       bs_rawBitStreamPtr = 4, bs_pOutput = 2,
       bs_out = [0x155, 0xFE00, 0xAAAA, 0xAAAA, 0xAAAA, 0xAAAA, 0xAAAA, 0xAAAA],
       bs_table_index_2 = 8176 \<rparr>"

text \<open>
  A frame of two blocks, quantisation scale 5: header \<open>0x155\<close>, the code \<open>01\<close>, the end-of-block
  code \<open>10\<close>, the next header \<open>0x2AA\<close>, the codes \<open>01\<close> and \<open>10\<close>, and the 11 bits \<open>0x3FF\<close>.
\<close>

definition frame_two_blocks :: "u16 list" where
  "frame_two_blocks = [5, 0x2AAC, 0xAA99, 0xFF80, 0, 0, 0]"

text \<open>
  The decoder on \<open>frame_two_blocks\<close> at the store of the first end-of-block word (five
  transitions after the start) and at the store of the second (eleven transitions).
\<close>

definition block_end_state :: bitstream_state where
  "block_end_state =
     \<lparr> bs_ret = 5, bs_workBits = 0x554C8000, bs_rawWord4 = 0xFE00, bs_usedBitCount = 15,
       bs_rawBitStreamPtr = 3, bs_pOutput = 2,
       bs_out = [0x155, 0x0405, 0xAAAA, 0xAAAA, 0xAAAA, 0xAAAA, 0xAAAA, 0xAAAA],
       bs_table_index_2 = 4778 \<rparr>"

definition frame_end_state :: bitstream_state where
  "frame_end_state =
     \<lparr> bs_ret = 5, bs_workBits = 0x7FE00000, bs_rawWord4 = 0x3FEFE00, bs_usedBitCount = 14,
       bs_rawBitStreamPtr = 4, bs_pOutput = 5,
       bs_out = [0x155, 0x0405, 0xFE00, 0x2AA, 0x0405, 0xAAAA, 0xAAAA, 0xAAAA],
       bs_table_index_2 = 5119 \<rparr>"

section \<open>Shared lemmas\<close>

lemma bindE_InrE:
  assumes "bindE m f = Inr y"
  obtains x where "m = Inr x" and "f x = Inr y"
  using assms by (cases m) (simp_all add: bindE_def)

lemma replicate_numeral:
  "replicate (numeral k) x = x # replicate (pred_numeral k) x"
  by (simp add: numeral_eq_Suc)

lemma list_update_Cons_numeral:
  "(x # xs)[numeral k := y] = x # xs[pred_numeral k := y]"
  by (simp add: numeral_eq_Suc)


text \<open>
  Rules for running a model on a concrete input: a \<open>bindE\<close> is opened only once its first step
  has been evaluated, and the continuation is left alone until then.
\<close>

lemma bindE_Inr: "bindE (Inr x) f = f x"
  by (simp add: bindE_def)

lemma bindE_Inl: "bindE (Inl e) f = Inl e"
  by (simp add: bindE_def)

lemma bindE_weak_cong: "m = m' \<Longrightarrow> bindE m f = bindE m' f"
  by simp

lemma sint32_small:
  "- 2147483648 \<le> k \<Longrightarrow> k < 2147483648 \<Longrightarrow> sint (word_of_int k :: 32 word) = k"
  by (simp add: sint_sbintrunc' signed_take_bit_int_eq_self)


section \<open>Per-frame dequantisation setup\<close>

lemma quant_loop_inv:
  "result < 63 \<Longrightarrow> length (g_252_buffer_unk_63580C q) = 64 \<Longrightarrow> length (g_252_buffer_unk_635A0C q) = 64 \<Longrightarrow>
   (let q' = quant_loop qs result q in
    length (g_252_buffer_unk_63580C q') = 64 \<and> length (g_252_buffer_unk_635A0C q') = 64 \<and>
    (\<forall>j. j \<le> result \<longrightarrow> g_252_buffer_unk_63580C q' ! j = g_252_buffer_unk_63580C q ! j
                      \<and> g_252_buffer_unk_635A0C q' ! j = g_252_buffer_unk_635A0C q ! j) \<and>
    (\<forall>j. result < j \<and> j \<le> 63 \<longrightarrow>
        g_252_buffer_unk_63580C q' ! j = qs * gQuant1_dword_42AEC8 ! (j - 1)
      \<and> g_252_buffer_unk_635A0C q' ! j = qs * gQaunt2_dword_42AFC4 ! j))"
proof (induction qs result q rule: quant_loop.induct)
  case (1 qs r q)
  show ?case
  proof (cases "r + 1 < 63")
    case True
    let ?q'' = "q\<lparr> g_252_buffer_unk_63580C := (g_252_buffer_unk_63580C q)[r + 1 := qs * (gQuant1_dword_42AEC8 ! r)],
                     g_252_buffer_unk_635A0C := (g_252_buffer_unk_635A0C q)[r + 1 := qs * (gQaunt2_dword_42AFC4 ! (r + 1))] \<rparr>"
    have step: "quant_loop qs r q = quant_loop qs (r + 1) ?q''"
      using True by (subst quant_loop.simps) (simp add: Let_def)
    have IH: "let q' = quant_loop qs (r + 1) ?q'' in
      length (g_252_buffer_unk_63580C q') = 64 \<and> length (g_252_buffer_unk_635A0C q') = 64 \<and>
      (\<forall>j. j \<le> r + 1 \<longrightarrow> g_252_buffer_unk_63580C q' ! j = g_252_buffer_unk_63580C ?q'' ! j
                      \<and> g_252_buffer_unk_635A0C q' ! j = g_252_buffer_unk_635A0C ?q'' ! j) \<and>
      (\<forall>j. r + 1 < j \<and> j \<le> 63 \<longrightarrow>
        g_252_buffer_unk_63580C q' ! j = qs * gQuant1_dword_42AEC8 ! (j - 1)
      \<and> g_252_buffer_unk_635A0C q' ! j = qs * gQaunt2_dword_42AFC4 ! j)"
      using "1.IH"[OF refl refl refl refl True True] "1.prems" by (simp add: Let_def)
    show ?thesis
      unfolding step using IH "1.prems" True
      apply (simp add: Let_def)
      apply (intro conjI allI impI)
      subgoal for j by (cases "j = r + 1") auto
      subgoal for j by (cases "j = r + 1") auto
      done
  next
    case False
    with "1.prems" have r: "r = 62" by simp
    show ?thesis
      using "1.prems" False
      apply (subst quant_loop.simps)
      apply (simp add: Let_def r)
      apply (intro conjI allI impI)
      subgoal for j by (cases "j = 63") auto
      subgoal for j by (cases "j = 63") auto
      done
  qed
qed

lemma fill16_loop_inv:
  "length (g_252_buffer_unk_63580C q) = 64 \<Longrightarrow> length (g_252_buffer_unk_635A0C q) = 64 \<Longrightarrow> i + n \<le> 64 \<Longrightarrow>
   (let q' = fill16_loop n i q in
    length (g_252_buffer_unk_63580C q') = 64 \<and> length (g_252_buffer_unk_635A0C q') = 64 \<and>
    (\<forall>j. j < 64 \<longrightarrow>
        g_252_buffer_unk_63580C q' ! j = (if i \<le> j \<and> j < i + n then 16 else g_252_buffer_unk_63580C q ! j)
      \<and> g_252_buffer_unk_635A0C q' ! j = (if i \<le> j \<and> j < i + n then 16 else g_252_buffer_unk_635A0C q ! j)))"
proof (induction n arbitrary: i q)
  case 0
  then show ?case by (auto simp: Let_def)
next
  case (Suc n)
  let ?q = "q\<lparr> g_252_buffer_unk_635A0C := (g_252_buffer_unk_635A0C q)[i := 16],
           g_252_buffer_unk_63580C := (g_252_buffer_unk_63580C q)[i := 16] \<rparr>"
  have "let q' = fill16_loop n (i + 1) ?q in
    length (g_252_buffer_unk_63580C q') = 64 \<and> length (g_252_buffer_unk_635A0C q') = 64 \<and>
    (\<forall>j. j < 64 \<longrightarrow>
        g_252_buffer_unk_63580C q' ! j = (if i + 1 \<le> j \<and> j < i + 1 + n then 16 else g_252_buffer_unk_63580C ?q ! j)
      \<and> g_252_buffer_unk_635A0C q' ! j = (if i + 1 \<le> j \<and> j < i + 1 + n then 16 else g_252_buffer_unk_635A0C ?q ! j))"
    using Suc.prems by (intro Suc.IH) auto
  then show ?case using Suc.prems
    by (auto simp: Let_def nth_list_update)
qed


text \<open>
  Claim C1 (as amended). After \<^verbatim>\<open>after_block_decode_no_effect_q_impl(qscale)\<close> both arrays still have
  64 entries and entry 0 of each is 16. When \<open>qscale > 0\<close> (signed), for every \<open>i\<close> in \<open>0..62\<close> the luma
  array holds \<open>qscale * gQuant1[i]\<close> at \<open>i + 1\<close>, and the chroma array holds
  \<open>qscale * gQaunt2[i + 1]\<close> at \<open>i + 1\<close>: the chroma base table is read at the index written, not one
  below it. When \<open>qscale = 0\<close> every entry of both arrays is 16. Products are modulo \<open>2^32\<close>.
\<close>

theorem after_block_decode_tables:
  assumes "length (g_252_buffer_unk_63580C q) = 64" and "length (g_252_buffer_unk_635A0C q) = 64"
  shows "let q' = after_block_decode_no_effect_q_impl qs q in
     length (g_252_buffer_unk_63580C q') = 64 \<and> length (g_252_buffer_unk_635A0C q') = 64 \<and>
     g_252_buffer_unk_63580C q' ! 0 = 16 \<and> g_252_buffer_unk_635A0C q' ! 0 = 16 \<and>
     (0 <s qs \<longrightarrow> (\<forall>i<63. g_252_buffer_unk_63580C q' ! (i + 1) = qs * gQuant1_dword_42AEC8 ! i
                         \<and> g_252_buffer_unk_635A0C q' ! (i + 1) = qs * gQaunt2_dword_42AFC4 ! (i + 1))) \<and>
     (qs = 0 \<longrightarrow> (\<forall>i<64. g_252_buffer_unk_63580C q' ! i = 16 \<and> g_252_buffer_unk_635A0C q' ! i = 16))"
proof (cases "0 <s qs")
  case True
  let ?q2 = "q\<lparr> g_252_buffer_unk_63580C := (g_252_buffer_unk_63580C q)[0 := 16],
                 g_252_buffer_unk_635A0C := (g_252_buffer_unk_635A0C q)[0 := 16] \<rparr>"
  have eq: "after_block_decode_no_effect_q_impl qs q = quant_loop qs 0 ?q2"
    using True by (simp add: after_block_decode_no_effect_q_impl_def Let_def)
  have "qs \<noteq> 0" using True by auto
  with quant_loop_inv[of 0 ?q2 qs] assms True show ?thesis
    unfolding eq by (simp add: Let_def)
next
  case False
  let ?q2 = "q\<lparr> g_252_buffer_unk_63580C := (g_252_buffer_unk_63580C q)[0 := 16],
                 g_252_buffer_unk_635A0C := (g_252_buffer_unk_635A0C q)[0 := 16] \<rparr>"
  have eq: "after_block_decode_no_effect_q_impl qs q = fill16_loop 64 0 ?q2"
    using False by (simp add: after_block_decode_no_effect_q_impl_def Let_def)
  from fill16_loop_inv[of ?q2 0 64] assms False show ?thesis
    unfolding eq by (simp add: Let_def)
qed

theorem after_block_decode_tables_witness:
  "length (g_252_buffer_unk_63580C qtables_init) = 64 \<and> length (g_252_buffer_unk_635A0C qtables_init) = 64 \<and>
   g_252_buffer_unk_63580C (after_block_decode_no_effect_q_impl 2 qtables_init) ! 1 = 24 \<and>
   g_252_buffer_unk_635A0C (after_block_decode_no_effect_q_impl 2 qtables_init) ! 1 = 36 \<and>
   g_252_buffer_unk_635A0C (after_block_decode_no_effect_q_impl 0 qtables_init) ! 63 = 16"
proof -
  have l: "length (g_252_buffer_unk_63580C qtables_init) = 64" "length (g_252_buffer_unk_635A0C qtables_init) = 64"
    by (simp_all add: qtables_init_def)
  have pos: "(0::u32) <s 2" by (simp add: word_sless_alt)
  from after_block_decode_tables[OF l, of 2] pos
  have a: "g_252_buffer_unk_63580C (after_block_decode_no_effect_q_impl 2 qtables_init) ! (0 + 1) = 2 * gQuant1_dword_42AEC8 ! 0
        \<and> g_252_buffer_unk_635A0C (after_block_decode_no_effect_q_impl 2 qtables_init) ! (0 + 1) = 2 * gQaunt2_dword_42AFC4 ! (0 + 1)"
    by (simp add: Let_def)
  from after_block_decode_tables[OF l, of 0]
  have b: "g_252_buffer_unk_635A0C (after_block_decode_no_effect_q_impl 0 qtables_init) ! 63 = 16"
    by (simp add: Let_def)
  from a b l show ?thesis
    by (simp add: gQuant1_dword_42AEC8_def gQaunt2_dword_42AFC4_def)
qed

text \<open>
  The claim as written fails for the chroma array: with \<open>qscale = 1\<close> entry 1 is
  \<open>gQaunt2[1] = 18\<close>, not \<open>gQaunt2[0] = 16\<close>.
\<close>

theorem chroma_table_offset_counterexample:
  "g_252_buffer_unk_635A0C (after_block_decode_no_effect_q_impl 1 qtables_init) ! (0 + 1)
     \<noteq> 1 * gQaunt2_dword_42AFC4 ! 0"
proof -
  let ?q2 = "qtables_init\<lparr> g_252_buffer_unk_63580C := (g_252_buffer_unk_63580C qtables_init)[0 := 16],
                 g_252_buffer_unk_635A0C := (g_252_buffer_unk_635A0C qtables_init)[0 := 16] \<rparr>"
  have pos: "(0::u32) <s 1" by (simp add: word_sless_alt)
  have eq: "after_block_decode_no_effect_q_impl 1 qtables_init = quant_loop 1 0 ?q2"
    using pos by (simp add: after_block_decode_no_effect_q_impl_def Let_def)
  have "g_252_buffer_unk_635A0C (quant_loop 1 0 ?q2) ! 1 = 1 * gQaunt2_dword_42AFC4 ! 1"
    using quant_loop_inv[of 0 ?q2 1] by (simp add: Let_def qtables_init_def)
  then show ?thesis
    unfolding eq by (simp add: gQaunt2_dword_42AFC4_def)
qed

section \<open>Header validation\<close>

lemma le_u32_bytes:
  "ucast (le_u32 b0 b1 b2 b3) = b0"
  "ucast (drop_bit 8 (le_u32 b0 b1 b2 b3)) = b1"
  "ucast (drop_bit 16 (le_u32 b0 b1 b2 b3)) = b2"
  "ucast (drop_bit 24 (le_u32 b0 b1 b2 b3)) = b3"
  by (rule bit_word_eqI; auto simp: le_u32_def bit_simps dest: bit_imp_le_length)+

lemma le_u32_inj:
  "le_u32 a0 a1 a2 a3 = le_u32 b0 b1 b2 b3 \<longleftrightarrow> a0 = b0 \<and> a1 = b1 \<and> a2 = b2 \<and> a3 = b3"
  by (metis le_u32_bytes)

lemma Read_u32_at:
  "drop (mPos s) (mData s) = b0 # b1 # b2 # b3 # rest \<Longrightarrow>
   Read_u32 s = (Inr (le_u32 b0 b1 b2 b3), s\<lparr>mPos := mPos s + 4\<rparr>)"
  by (simp add: Read_u32_def)

text \<open>
  Claim C9. A stream whose first four bytes are not \<^verbatim>\<open>D D V \0\<close> makes \<^verbatim>\<open>Masher::Read\<close> throw
  \<^verbatim>\<open>InvalidDdv("Invalid DDV tag")\<close> (the spec's BadMagic) with only the tag consumed; a stream with
  that magic whose version field is not 1 makes it throw \<^verbatim>\<open>InvalidDdv("Wrong DDV version")\<close> (the
  spec's UnsupportedVersion) with only tag and version consumed. Either way \<^verbatim>\<open>Read\<close> yields no
  decoder state, so no frame can be decoded from it.
\<close>

theorem Read_rejects_bad_header:
  "([b0, b1, b2, b3] \<noteq> [0x44, 0x44, 0x56, 0x00] \<longrightarrow>
      Read \<lparr>mData = b0 # b1 # b2 # b3 # rest, mPos = 0\<rparr>
        = (Inl (InvalidDdv ''Invalid DDV tag''), \<lparr>mData = b0 # b1 # b2 # b3 # rest, mPos = 4\<rparr>)) \<and>
   (le_u32 v0 v1 v2 v3 \<noteq> 1 \<longrightarrow>
      Read \<lparr>mData = [0x44, 0x44, 0x56, 0x00] @ v0 # v1 # v2 # v3 # rest', mPos = 0\<rparr>
        = (Inl (InvalidDdv ''Wrong DDV version''),
           \<lparr>mData = [0x44, 0x44, 0x56, 0x00] @ v0 # v1 # v2 # v3 # rest', mPos = 8\<rparr>))"
proof (intro conjI impI)
  assume bad: "[b0, b1, b2, b3] \<noteq> [0x44, 0x44, 0x56, 0x00]"
  let ?s = "\<lparr>mData = b0 # b1 # b2 # b3 # rest, mPos = 0\<rparr>"
  let ?s4 = "\<lparr>mData = b0 # b1 # b2 # b3 # rest, mPos = 4\<rparr>"
  have rd: "Read_u32 ?s = (Inr (le_u32 b0 b1 b2 b3), ?s4)"
    using Read_u32_at[of ?s b0 b1 b2 b3 rest] by simp
  have "le_u32 b0 b1 b2 b3 \<noteq> MakeType_DDV"
    using bad unfolding MakeType_DDV_def le_u32_inj by simp
  then show "Read ?s = (Inl (InvalidDdv ''Invalid DDV tag''), \<lparr>mData = b0 # b1 # b2 # b3 # rest, mPos = 4\<rparr>)"
    unfolding Read_def io_bind_def rd by (simp add: io_throw_def)
next
  assume bad: "le_u32 v0 v1 v2 v3 \<noteq> 1"
  let ?d = "[0x44, 0x44, 0x56, 0x00] @ v0 # v1 # v2 # v3 # rest'"
  let ?s = "\<lparr>mData = ?d, mPos = 0\<rparr>"
  let ?s4 = "\<lparr>mData = ?d, mPos = 4\<rparr>"
  let ?s8 = "\<lparr>mData = ?d, mPos = 8\<rparr>"
  have rd1: "Read_u32 ?s = (Inr MakeType_DDV, ?s4)"
    using Read_u32_at[of ?s "0x44" "0x44" "0x56" 0 "v0 # v1 # v2 # v3 # rest'"]
    by (simp add: MakeType_DDV_def)
  have rd2: "Read_u32 ?s4 = (Inr (le_u32 v0 v1 v2 v3), ?s8)"
    using Read_u32_at[of ?s4 v0 v1 v2 v3 rest'] by simp
  have "Read ?s = (Inl (InvalidDdv ''Wrong DDV version''), ?s8)"
    unfolding Read_def io_bind_def rd1 using bad by (simp add: rd2 io_throw_def del: append.simps)
  then show "Read ?s = (Inl (InvalidDdv ''Wrong DDV version''), \<lparr>mData = ?d, mPos = 8\<rparr>)" .
qed

theorem Read_rejects_bad_header_witness:
  "[0x52, 0x49, 0x46, 0x46] \<noteq> [0x44, 0x44, 0x56, 0x00 :: u8] \<and>
   Read \<lparr>mData = [0x52, 0x49, 0x46, 0x46, 0x01], mPos = 0\<rparr>
     = (Inl (InvalidDdv ''Invalid DDV tag''), \<lparr>mData = [0x52, 0x49, 0x46, 0x46, 0x01], mPos = 4\<rparr>) \<and>
   le_u32 2 0 0 0 \<noteq> 1 \<and>
   Read \<lparr>mData = [0x44, 0x44, 0x56, 0x00] @ [2, 0, 0, 0, 7], mPos = 0\<rparr>
     = (Inl (InvalidDdv ''Wrong DDV version''),
        \<lparr>mData = [0x44, 0x44, 0x56, 0x00] @ [2, 0, 0, 0, 7], mPos = 8\<rparr>)"
proof -
  have a: "[0x52, 0x49, 0x46, 0x46] \<noteq> [0x44, 0x44, 0x56, 0x00 :: u8]" by simp
  have b: "le_u32 2 0 0 0 \<noteq> 1" by (simp add: le_u32_def)
  from Read_rejects_bad_header[of "0x52" "0x49" "0x46" "0x46" "[0x01]" 2 0 0 0 "[7]"] a b
  show ?thesis by simp
qed

section \<open>The IDCT is two butterfly passes\<close>

lemma half_idct_body_length [simp]:
  "length (half_idct_body src dst p sh si di) = length dst"
  by (simp add: half_idct_body_def Let_def)

lemma half_idct_loop_length [simp]:
  "length (half_idct_loop n src dst p inc sh si di) = length dst"
  by (induction n arbitrary: dst si di) simp_all

lemma butterfly_spec_nth:
  "butterfly_spec sh s ! 0 = signed_drop_bit sh (butterfly_E s ! 0 + butterfly_O s ! 0)"
  "butterfly_spec sh s ! 1 = signed_drop_bit sh (butterfly_E s ! 1 + butterfly_O s ! 1)"
  "butterfly_spec sh s ! Suc 0 = signed_drop_bit sh (butterfly_E s ! 1 + butterfly_O s ! 1)"
  "butterfly_spec sh s ! 2 = signed_drop_bit sh (butterfly_E s ! 2 + butterfly_O s ! 2)"
  "butterfly_spec sh s ! 3 = signed_drop_bit sh (butterfly_E s ! 3 + butterfly_O s ! 3)"
  "butterfly_spec sh s ! 4 = signed_drop_bit sh (butterfly_E s ! 3 - butterfly_O s ! 3)"
  "butterfly_spec sh s ! 5 = signed_drop_bit sh (butterfly_E s ! 2 - butterfly_O s ! 2)"
  "butterfly_spec sh s ! 6 = signed_drop_bit sh (butterfly_E s ! 1 - butterfly_O s ! 1)"
  "butterfly_spec sh s ! 7 = signed_drop_bit sh (butterfly_E s ! 0 - butterfly_O s ! 0)"
  by (simp_all add: butterfly_spec_def Let_def)

lemma upt8: "[0..<8] = [0, 1, 2, 3, 4, 5, 6, 7]"
  by (simp add: upt_rec)

lemma half_idct_body_nth:
  assumes "0 < p" and "7 * p + di < length dst"
  shows "half_idct_body src dst p sh si di ! j =
           (if \<exists>k<8. j = k * p + di
            then butterfly_spec sh (map (\<lambda>k. src ! (k * p + si)) [0..<8]) ! ((j - di) div p)
            else dst ! j)"
proof (cases "\<exists>k<8. j = k * p + di")
  case False
  then have ne: "\<And>k. k < 8 \<Longrightarrow> j \<noteq> k * p + di" by blast
  have "half_idct_body src dst p sh si di ! j = dst ! j"
    using ne[of 0] ne[of 1] ne[of 2] ne[of 3] ne[of 4] ne[of 5] ne[of 6] ne[of 7]
    by (simp add: half_idct_body_def Let_def)
  with False show ?thesis by auto
next
  case True
  then obtain k where k: "k < 8" "j = k * p + di" by blast
  then have kd: "(j - di) div p = k" using assms by simp
  from k(1) have "k \<in> {0, 1, 2, 3, 4, 5, 6, 7}" by auto
  then show ?thesis
    using assms True unfolding kd
    by (auto simp: k(2) half_idct_body_def Let_def butterfly_spec_nth butterfly_E_def butterfly_O_def upt8)
qed

lemma column_index:
  fixes i j :: nat
  assumes "j < 64" and "i < 8"
  shows "(\<exists>k<8. j = k * 8 + i) \<longleftrightarrow> j mod 8 = i"
proof
  assume "\<exists>k<8. j = k * 8 + i"
  with assms show "j mod 8 = i" by auto
next
  assume "j mod 8 = i"
  then have "j = (j div 8) * 8 + i" by presburger
  moreover have "j div 8 < 8" using assms by simp
  ultimately show "\<exists>k<8. j = k * 8 + i" by blast
qed

lemma row_index:
  fixes i j :: nat
  assumes "j < 64" and "i < 8"
  shows "(\<exists>k<8. j = k * 1 + 8 * i) \<longleftrightarrow> j div 8 = i"
proof
  assume "\<exists>k<8. j = k * 1 + 8 * i"
  with assms show "j div 8 = i" by auto
next
  assume "j div 8 = i"
  then have "j = (j mod 8) * 1 + 8 * i" by presburger
  moreover have "j mod 8 < 8" by simp
  ultimately show "\<exists>k<8. j = k * 1 + 8 * i" by blast
qed

lemma half_idct_loop_columns:
  assumes "i0 + n \<le> 8" and "64 \<le> length dst" and "j < 64"
  shows "half_idct_loop n src dst 8 1 sh i0 i0 ! j =
           (if i0 \<le> j mod 8 \<and> j mod 8 < i0 + n
            then butterfly_spec sh (map (\<lambda>k. src ! (k * 8 + j mod 8)) [0..<8]) ! (j div 8)
            else dst ! j)"
  using assms
proof (induction n arbitrary: dst i0)
  case 0
  then show ?case by auto
next
  case (Suc n)
  let ?dst = "half_idct_body src dst 8 sh i0 i0"
  have i0: "i0 < 8" using Suc.prems by simp
  have body: "?dst ! j =
      (if j mod 8 = i0 then butterfly_spec sh (map (\<lambda>k. src ! (k * 8 + i0)) [0..<8]) ! ((j - i0) div 8)
       else dst ! j)"
    using half_idct_body_nth[of 8 i0 dst src sh i0 j] Suc.prems i0 column_index[OF \<open>j < 64\<close> i0]
    by simp
  have div: "j mod 8 = i0 \<Longrightarrow> (j - i0) div 8 = j div 8"
    by presburger
  have IH: "half_idct_loop n src ?dst 8 1 sh (i0 + 1) (i0 + 1) ! j =
           (if i0 + 1 \<le> j mod 8 \<and> j mod 8 < i0 + 1 + n
            then butterfly_spec sh (map (\<lambda>k. src ! (k * 8 + j mod 8)) [0..<8]) ! (j div 8)
            else ?dst ! j)"
    using Suc.prems by (intro Suc.IH) simp_all
  show ?case
    unfolding half_idct_loop.simps IH body using div by auto
qed

lemma half_idct_loop_rows:
  assumes "i0 + n \<le> 8" and "64 \<le> length dst" and "j < 64"
  shows "half_idct_loop n src dst 1 8 sh (8 * i0) (8 * i0) ! j =
           (if i0 \<le> j div 8 \<and> j div 8 < i0 + n
            then butterfly_spec sh (map (\<lambda>k. src ! (k + 8 * (j div 8))) [0..<8]) ! (j mod 8)
            else dst ! j)"
  using assms
proof (induction n arbitrary: dst i0)
  case 0
  then show ?case by auto
next
  case (Suc n)
  let ?dst = "half_idct_body src dst 1 sh (8 * i0) (8 * i0)"
  have i0: "i0 < 8" using Suc.prems by simp
  have body: "?dst ! j =
      (if j div 8 = i0 then butterfly_spec sh (map (\<lambda>k. src ! (k + 8 * i0)) [0..<8]) ! (j - 8 * i0)
       else dst ! j)"
    using half_idct_body_nth[of 1 "8 * i0" dst src sh "8 * i0" j] Suc.prems i0 row_index[OF \<open>j < 64\<close> i0]
    by simp
  have md: "j div 8 = i0 \<Longrightarrow> j - 8 * i0 = j mod 8"
    by presburger
  have IH: "half_idct_loop n src ?dst 1 8 sh (8 * (i0 + 1)) (8 * (i0 + 1)) ! j =
           (if i0 + 1 \<le> j div 8 \<and> j div 8 < i0 + 1 + n
            then butterfly_spec sh (map (\<lambda>k. src ! (k + 8 * (j div 8))) [0..<8]) ! (j mod 8)
            else ?dst ! j)"
    using Suc.prems by (intro Suc.IH) simp_all
  have step: "half_idct_loop (Suc n) src dst 1 8 sh (8 * i0) (8 * i0)
                = half_idct_loop n src ?dst 1 8 sh (8 * (i0 + 1)) (8 * (i0 + 1))"
    by (simp add: add.commute)
  show ?case
    unfolding step IH body using md by auto
qed

lemma half_idct_pass1:
  assumes "64 \<le> length dst"
  shows "take 64 (half_idct src dst 8 1 11) = idct_pass1_spec src"
proof (rule nth_equalityI)
  show "length (take 64 (half_idct src dst 8 1 11)) = length (idct_pass1_spec src)"
    using assms by (simp add: half_idct_def idct_pass1_spec_def)
next
  fix j assume "j < length (take 64 (half_idct src dst 8 1 11))"
  then have j: "j < 64" by simp
  then have j8: "j mod 8 < 8" "j div 8 < 8" by simp_all
  show "take 64 (half_idct src dst 8 1 11) ! j = idct_pass1_spec src ! j"
    using half_idct_loop_columns[of 0 8 dst j src 11] assms j j8
    by (simp add: half_idct_def idct_pass1_spec_def mult.commute)
qed

lemma half_idct_pass2:
  assumes "64 \<le> length dst"
  shows "take 64 (half_idct src dst 1 8 18) = idct_pass2_spec src"
proof (rule nth_equalityI)
  show "length (take 64 (half_idct src dst 1 8 18)) = length (idct_pass2_spec src)"
    using assms by (simp add: half_idct_def idct_pass2_spec_def)
next
  fix j assume "j < length (take 64 (half_idct src dst 1 8 18))"
  then have j: "j < 64" by simp
  then have j8: "j mod 8 < 8" "j div 8 < 8" by simp_all
  show "take 64 (half_idct src dst 1 8 18) ! j = idct_pass2_spec src ! j"
    using half_idct_loop_rows[of 0 8 dst j src 18] assms j j8
    by (simp add: half_idct_def idct_pass2_spec_def)
qed

lemma foldl_update_upt_nth:
  "n \<le> length xs \<Longrightarrow>
   foldl (\<lambda>ys i. ys[i := f i]) xs [0..<n] ! j = (if j < n then f j else xs ! j)"
proof (induction n)
  case 0
  then show ?case by simp
next
  case (Suc n)
  have len: "length (foldl (\<lambda>ys i. ys[i := f i]) xs [0..<m]) = length xs" for m
    by (induction m) simp_all
  from Suc show ?case
    by (auto simp: len nth_list_update less_Suc_eq)
qed

lemma sign_extend_input_nth:
  "j < 64 \<Longrightarrow> sign_extend_input input ! j = scast (input ! (j * 2))"
  by (simp add: sign_extend_input_def foldl_update_upt_nth)

lemma int16_view_even:
  "i < length slots \<Longrightarrow> int16_view slots ! (i * 2) = ucast (slots ! i)"
proof (induction slots arbitrary: i)
  case Nil
  then show ?case by simp
next
  case (Cons w ws)
  show ?case
  proof (cases i)
    case 0
    then show ?thesis by (simp add: int16_view_def)
  next
    case (Suc i')
    with Cons.prems have "i' < length ws" by simp
    from Cons.IH[OF this] show ?thesis
      by (simp add: Suc int16_view_def)
  qed
qed

lemma idct_pass1_spec_take:
  assumes "64 \<le> length a"
  shows "idct_pass1_spec (take 64 a) = idct_pass1_spec a"
proof -
  have inner: "map (\<lambda>j. take 64 a ! (8 * j + idx mod 8)) [0..<8]
                 = map (\<lambda>j. a ! (8 * j + idx mod 8)) [0..<8]" for idx :: nat
  proof (rule map_cong[OF refl])
    fix j :: nat assume "j \<in> set [0..<8]"
    then have "j < 8" by simp
    then have "8 * j + idx mod 8 < 64" by presburger
    then show "take 64 a ! (8 * j + idx mod 8) = a ! (8 * j + idx mod 8)" by simp
  qed
  show ?thesis
    unfolding idct_pass1_spec_def inner ..
qed

lemma idct_pass2_spec_take:
  assumes "64 \<le> length a"
  shows "idct_pass2_spec (take 64 a) = idct_pass2_spec a"
  unfolding idct_pass2_spec_def
proof (rule map_cong[OF refl])
  fix idx :: nat assume "idx \<in> set [0..<64]"
  then have idx: "idx < 64" by simp
  have "map (\<lambda>j. take 64 a ! (j + 8 * (idx div 8))) [0..<8]
          = map (\<lambda>j. a ! (j + 8 * (idx div 8))) [0..<8]"
  proof (rule map_cong[OF refl])
    fix j :: nat assume "j \<in> set [0..<8]"
    then have "j < 8" by simp
    then have "j + 8 * (idx div 8) < 64" using idx by presburger
    then show "take 64 a ! (j + 8 * (idx div 8)) = a ! (j + 8 * (idx div 8))" by simp
  qed
  then show "butterfly_spec 18 (map (\<lambda>j. take 64 a ! (j + 8 * (idx div 8))) [0..<8]) ! (idx mod 8)
           = butterfly_spec 18 (map (\<lambda>j. a ! (j + 8 * (idx div 8))) [0..<8]) ! (idx mod 8)"
    by (simp only:)
qed

text \<open>
  Claim C5. On a 64-slot coefficient block \<^verbatim>\<open>idct\<close> computes two applications of the 8-point
  butterfly with the multipliers and arithmetic shifts of the specification: pass 1 down the
  columns (pitch 8) with shift 11, pass 2 along the rows (pitch 1) with shift 18, the inputs of
  pass 1 being the sign-extended low 16 bits of each packed slot. All arithmetic is 32-bit.
\<close>

theorem idct_two_passes:
  assumes "64 \<le> length slots" and "64 \<le> length pDestination"
  shows "take 64 (idct (int16_view slots) pDestination) = idct_spec slots"
proof -
  let ?ext = "sign_extend_input (int16_view slots)"
  let ?tmp = "half_idct ?ext (replicate 256 0) 8 1 11"
  have ext_len: "length ?ext = 256"
  proof -
    have "length (foldl (\<lambda>ys i. ys[i := f i]) xs [0..<m]) = length xs" for m f and xs :: "s32 list"
      by (induction m) simp_all
    then show ?thesis by (simp add: sign_extend_input_def)
  qed
  have ext: "take 64 ?ext = map (\<lambda>w. scast (ucast w :: s16)) (take 64 slots)"
  proof (rule nth_equalityI)
    show "length (take 64 ?ext) = length (map (\<lambda>w. scast (ucast w :: s16)) (take 64 slots))"
      using assms ext_len by simp
  next
    fix j assume "j < length (take 64 ?ext)"
    then have j: "j < 64" by simp
    with assms have "j < length slots" by simp
    then show "take 64 ?ext ! j = map (\<lambda>w. scast (ucast w :: s16)) (take 64 slots) ! j"
      using j assms by (simp add: sign_extend_input_nth int16_view_even)
  qed
  have tmp_len: "length ?tmp = 256" by (simp add: half_idct_def)
  have "take 64 ?tmp = idct_pass1_spec ?ext"
    by (rule half_idct_pass1) simp
  also have "\<dots> = idct_pass1_spec (take 64 ?ext)"
    using ext_len by (simp add: idct_pass1_spec_take)
  finally have tmp: "take 64 ?tmp = idct_pass1_spec (map (\<lambda>w. scast (ucast w :: s16)) (take 64 slots))"
    unfolding ext .
  have "take 64 (idct (int16_view slots) pDestination) = idct_pass2_spec ?tmp"
    unfolding idct_def Let_def using assms(2) by (rule half_idct_pass2)
  also have "\<dots> = idct_pass2_spec (take 64 ?tmp)"
    using tmp_len by (simp add: idct_pass2_spec_take)
  finally show ?thesis
    unfolding tmp idct_spec_def .
qed

lemma idct_spec_dc_only: "idct_spec (0x1234FC00 # replicate 63 0) ! 0 = - 128"
  by (simp add: idct_spec_def idct_pass2_spec_def idct_pass1_spec_def butterfly_spec_def
       butterfly_E_def butterfly_O_def Let_def upt8)

theorem idct_two_passes_witness:
  "64 \<le> length (0x1234FC00 # replicate 63 (0 :: u32)) \<and> 64 \<le> length (replicate 256 (0 :: s32)) \<and>
   idct (int16_view (0x1234FC00 # replicate 63 0)) (replicate 256 0) ! 0 = - 128"
proof -
  have a: "64 \<le> length (0x1234FC00 # replicate 63 (0 :: u32))"
    and b: "64 \<le> length (replicate 256 (0 :: s32))" by simp_all
  have "take 64 (idct (int16_view (0x1234FC00 # replicate 63 0)) (replicate 256 0)) ! 0
          = idct_spec (0x1234FC00 # replicate 63 0) ! 0"
    using idct_two_passes[OF a b] by simp
  then show ?thesis
    using a b by (simp add: idct_spec_dc_only)
qed

section \<open>Audio: where the channel decoder stores samples\<close>

lemma store_sample_Inr:
  assumes "store_sample p v ob = Inr ob'"
  shows "0 \<le> p" and "nat p < length (samples ob)"
    and "written ob' = written ob @ [nat p]"
    and "samples ob' = (samples ob)[nat p := v]"
  using assms by (auto simp: store_sample_def split: if_splits)

lemma ReadNextAudioWord_stride:
  "ReadNextAudioWord raw d v = Inr (w, d') \<Longrightarrow> mAudioFrameSizeBytes d' = mAudioFrameSizeBytes d"
  by (auto simp: ReadNextAudioWord_def elim!: bindE_InrE split: if_splits)

lemma NextSoundBits_stride:
  "NextSoundBits raw d n = Inr (r, d') \<Longrightarrow> mAudioFrameSizeBytes d' = mAudioFrameSizeBytes d"
  by (auto simp: NextSoundBits_def Let_def elim!: bindE_InrE dest!: ReadNextAudioWord_stride
           split: prod.splits)

lemma SndRelated_stride:
  "SndRelated_sub_409650 raw d = Inr d' \<Longrightarrow> mAudioFrameSizeBytes d' = mAudioFrameSizeBytes d"
  by (auto simp: SndRelated_sub_409650_def Let_def elim!: bindE_InrE dest!: ReadNextAudioWord_stride
           split: prod.splits)

lemma read_residual_stride:
  "read_residual raw d a b c = Inr (s, d') \<Longrightarrow> mAudioFrameSizeBytes d' = mAudioFrameSizeBytes d"
  by (auto simp: read_residual_def elim!: bindE_InrE dest!: NextSoundBits_stride
           split: prod.splits if_splits)

lemma read_seed_Inr:
  assumes "read_seed raw (d, ob, p) = Inr (v, d', ob', p')"
  shows "mAudioFrameSizeBytes d' = mAudioFrameSizeBytes d"
    and "p' = p + mAudioFrameSizeBytes d"
    and "0 \<le> p" and "nat p < length (samples ob)"
    and "written ob' = written ob @ [nat p]"
    and "\<exists>a. samples ob' = (samples ob)[nat p := a] \<and> v = scast a"
  using assms
  by (auto simp: read_seed_def elim!: bindE_InrE dest!: NextSoundBits_stride
           dest: store_sample_Inr split: prod.splits)

lemma strided_positions_Suc:
  "map (\<lambda>k. nat (p + int k * s)) [0..<Suc n] = nat p # map (\<lambda>k. nat ((p + s) + int k * s)) [0..<n]"
proof -
  have "map (\<lambda>k. nat (p + int k * s)) [0..<Suc n]
          = nat (p + int 0 * s) # map (\<lambda>k. nat (p + int (Suc k) * s)) [0..<n]"
    by (rule map_upt_Suc)
  also have "\<dots> = nat p # map (\<lambda>k. nat ((p + s) + int k * s)) [0..<n]"
    by (simp add: algebra_simps)
  finally show ?thesis .
qed

lemma sample_loop_Inr:
  assumes "sample_loop n raw f a b c st = Inr st'"
  shows "mAudioFrameSizeBytes (reader st') = mAudioFrameSizeBytes (reader st) \<and>
         outPtr st' = outPtr st + int n * mAudioFrameSizeBytes (reader st) \<and>
         written (outbuf st') = written (outbuf st)
            @ map (\<lambda>k. nat (outPtr st + int k * mAudioFrameSizeBytes (reader st))) [0..<n] \<and>
         length (samples (outbuf st')) = length (samples (outbuf st)) \<and>
         (\<forall>i. i \<notin> set (map (\<lambda>k. nat (outPtr st + int k * mAudioFrameSizeBytes (reader st))) [0..<n])
               \<longrightarrow> samples (outbuf st') ! i = samples (outbuf st) ! i)"
  using assms
proof (induction n arbitrary: st)
  case 0
  then show ?case by simp
next
  case (Suc n)
  let ?s = "mAudioFrameSizeBytes (reader st)"
  from Suc.prems obtain samplePart d pv ob where
    rr: "read_residual raw (reader st) a b c = Inr (samplePart, d)" and
    ns: "next_sample f (previousValues st) samplePart = Inr pv" and
    ss: "store_sample (outPtr st) (ucast (snd (snd pv))) (outbuf st) = Inr ob" and
    rest: "sample_loop n raw f a b c
             (st\<lparr> reader := d, outbuf := ob, outPtr := outPtr st + mAudioFrameSizeBytes d,
                  previousValues := pv \<rparr>) = Inr st'"
    by (auto elim!: bindE_InrE split: prod.splits)
  have sd: "mAudioFrameSizeBytes d = ?s" using read_residual_stride[OF rr] .
  note st = store_sample_Inr[OF ss]
  let ?st1 = "st\<lparr> reader := d, outbuf := ob, outPtr := outPtr st + mAudioFrameSizeBytes d,
                  previousValues := pv \<rparr>"
  from Suc.IH[OF rest] have IH:
    "mAudioFrameSizeBytes (reader st') = ?s"
    "outPtr st' = outPtr st + ?s + int n * ?s"
    "written (outbuf st') = written ob @ map (\<lambda>k. nat ((outPtr st + ?s) + int k * ?s)) [0..<n]"
    "length (samples (outbuf st')) = length (samples ob)"
    "\<forall>i. i \<notin> set (map (\<lambda>k. nat ((outPtr st + ?s) + int k * ?s)) [0..<n])
               \<longrightarrow> samples (outbuf st') ! i = samples ob ! i"
    by (simp_all add: sd)
  have pos: "map (\<lambda>k. nat (outPtr st + int k * ?s)) [0..<Suc n]
               = nat (outPtr st) # map (\<lambda>k. nat ((outPtr st + ?s) + int k * ?s)) [0..<n]"
    by (rule strided_positions_Suc)
  show ?case
    unfolding pos using IH st
    by (auto simp: algebra_simps)
qed

lemma strided_positions_3:
  "map (\<lambda>k. nat (p + int k * s)) [0..<3 + m]
     = [nat p, nat (p + s), nat (p + s + s)] @ map (\<lambda>k. nat ((p + s + s + s) + int k * s)) [0..<m]"
proof -
  have "3 + m = Suc (Suc (Suc m))" by simp
  then show ?thesis
    by (simp only: strided_positions_Suc append.simps)
qed

lemma decode_16bit_audio_frame_Inr:
  assumes "decode_16bit_audio_frame raw d ob p n isLast = Inr (d', ob')"
  shows "mAudioFrameSizeBytes d' = mAudioFrameSizeBytes d \<and>
         written ob' = written ob
            @ map (\<lambda>k. nat (p + int k * mAudioFrameSizeBytes d)) [0..<(if 3 < n then nat n else 3)] \<and>
         length (samples ob') = length (samples ob) \<and>
         (\<forall>i. i \<notin> set (map (\<lambda>k. nat (p + int k * mAudioFrameSizeBytes d))
                             [0..<(if 3 < n then nat n else 3)])
               \<longrightarrow> samples ob' ! i = samples ob ! i)"
proof -
  let ?s = "mAudioFrameSizeBytes d"
  let ?m = "if 3 < n then nat (n - 3) else 0"
  from assms obtain f d1 a d2 b d3 c d4 v1 d5 ob5 p5 v2 d6 ob6 p6 v3 d7 ob7 p7 st d8 where
    n1: "NextSoundBits raw d 16 = Inr (f, d1)" and
    n2: "NextSoundBits raw d1 16 = Inr (a, d2)" and
    n3: "NextSoundBits raw d2 16 = Inr (b, d3)" and
    n4: "NextSoundBits raw d3 16 = Inr (c, d4)" and
    s1: "read_seed raw (d4, ob, p) = Inr (v1, d5, ob5, p5)" and
    s2: "read_seed raw (d5, ob5, p5) = Inr (v2, d6, ob6, p6)" and
    s3: "read_seed raw (d6, ob6, p6) = Inr (v3, d7, ob7, p7)" and
    lp: "(if 3 < n
          then sample_loop (nat (n - 3)) raw f a b c
                 \<lparr> reader = d7, outbuf = ob7, outPtr = p7, previousValues = (v1, v2, v3) \<rparr>
          else Inr \<lparr> reader = d7, outbuf = ob7, outPtr = p7, previousValues = (v1, v2, v3) \<rparr>) = Inr st" and
    al: "(if \<not> isLast then SndRelated_sub_409650 raw (reader st) else Inr (reader st)) = Inr d8" and
    res: "d' = d8" "ob' = outbuf st"
    unfolding decode_16bit_audio_frame_def
    by (auto elim!: bindE_InrE split: prod.splits)
  have d4: "mAudioFrameSizeBytes d4 = ?s"
    using NextSoundBits_stride[OF n1] NextSoundBits_stride[OF n2]
          NextSoundBits_stride[OF n3] NextSoundBits_stride[OF n4] by simp
  note r1 = read_seed_Inr[OF s1]
  note r2 = read_seed_Inr[OF s2]
  note r3 = read_seed_Inr[OF s3]
  have d7: "mAudioFrameSizeBytes d7 = ?s" using r1(1) r2(1) r3(1) d4 by simp
  have p5: "p5 = p + ?s" and p6: "p6 = p + ?s + ?s" and p7: "p7 = p + ?s + ?s + ?s"
    using r1(2) r2(2) r3(2) r1(1) r2(1) d4 by simp_all
  let ?st0 = "\<lparr> reader = d7, outbuf = ob7, outPtr = p7, previousValues = (v1, v2, v3) \<rparr>"
  have loop: "mAudioFrameSizeBytes (reader st) = ?s \<and>
         written (outbuf st) = written ob7 @ map (\<lambda>k. nat (p7 + int k * ?s)) [0..<?m] \<and>
         length (samples (outbuf st)) = length (samples ob7) \<and>
         (\<forall>i. i \<notin> set (map (\<lambda>k. nat (p7 + int k * ?s)) [0..<?m])
               \<longrightarrow> samples (outbuf st) ! i = samples ob7 ! i)"
  proof (cases "3 < n")
    case True
    with lp have "sample_loop (nat (n - 3)) raw f a b c ?st0 = Inr st" by simp
    from sample_loop_Inr[OF this] True d7 show ?thesis by simp
  next
    case False
    with lp have "st = ?st0" by simp
    with False d7 show ?thesis by simp
  qed
  have d8: "mAudioFrameSizeBytes d8 = ?s"
    using al loop by (auto split: if_splits dest: SndRelated_stride)
  have cnt: "(if 3 < n then nat n else 3) = 3 + ?m" by auto
  have w7: "written ob7 = written ob @ [nat p, nat (p + ?s), nat (p + ?s + ?s)]"
    using r1(5) r2(5) r3(5) p5 p6 by simp
  obtain a1 a2 a3 where
    smp: "samples ob7 = (samples ob)[nat p := a1, nat (p + ?s) := a2, nat (p + ?s + ?s) := a3]"
    using r1(6) r2(6) r3(6) p5 p6 by auto
  show ?thesis
    unfolding cnt strided_positions_3 res
    using loop d8 w7 smp p7 by auto
qed

subsection \<open>Evaluating the decoder on the example frame\<close>

lemma sample_loop_numeral:
  "sample_loop (numeral k) raw useTableFlag firstWord secondWord thirdWord st =
     bindE (read_residual raw (reader st) firstWord secondWord thirdWord) (\<lambda>(samplePart, d).
     bindE (next_sample useTableFlag (previousValues st) samplePart) (\<lambda>pv.
     bindE (store_sample (outPtr st) (ucast (snd (snd pv))) (outbuf st)) (\<lambda>ob.
       sample_loop (pred_numeral k) raw useTableFlag firstWord secondWord thirdWord
         (st\<lparr> reader := d, outbuf := ob,
              outPtr := outPtr st + mAudioFrameSizeBytes d,
              previousValues := pv \<rparr>))))"
  by (subst numeral_eq_Suc) (rule sample_loop.simps)

lemma ucast_down_neg: "(ucast (- w :: 32 word) :: 16 word) = - ucast w"
proof -
  have "(ucast (- w) :: 16 word) = word_of_int (uint (- w))"
    by (simp add: word_uint_eq_iff)
  also have "\<dots> = word_of_int (take_bit 32 (- uint w))"
    by (simp add: uint_word_arith_bintrs)
  also have "\<dots> = word_of_int (- uint w)"
    by (simp add: word_of_int_eq_iff min_def del: of_int_minus)
  also have "\<dots> = - ucast w"
    by simp
  finally show ?thesis .
qed

lemma gSndTbl_0: "gSndTbl_byte_62EEB0 ! 0 = 0"
  by (simp add: gSndTbl_byte_62EEB0_def snd_tbl_loop.simps)

lemmas audio_eval =
  replicate_numeral list_update_Cons_numeral ucast_down_neg gSndTbl_0
  decode_audio_frame_def decode_channel0_def decode_16bit_audio_frame_def read_seed_def
  sample_loop_numeral next_sample_def read_residual_def memset_out_def memset_count_def
  store_sample_def SetAudioFrameSizeBytesAndBits_def SetupAudioDecodePtrs_def SampleMatches_def
  NextSoundBits_def SndRelated_sub_409650_def ReadNextAudioWord_def AudioDecompressor_new_def
  sub_408F50_def GetSoundTableValue_def abs_s16_def sar32_def shr32_def shl32_def
  bindE_Inr bindE_Inl Let_def
  audio_frame_example_def out_buffer_example_def

lemma decode_channel0_example:
  "decode_channel0 audio_frame_example out_buffer_example 5 =
     Inr (\<lparr> mUsedBits = 32, mWorkBits = 524288, mAudioFrameDataPtr = 10, mAudioFrameSizeBytes = 2 \<rparr>,
          \<lparr> samples = [10, 0, 20, 0, 30, 0, 41, 0, 54, 0, 0xFFFF, 0xFFFF],
            written = [0, 2, 4, 6, 8] \<rparr>)"
  by (simp add: audio_eval cong: bindE_weak_cong)

lemma decode_audio_frame_example:
  "decode_audio_frame audio_frame_example out_buffer_example 5 =
     Inr \<lparr> samples = [10, 40, 20, 50, 30, 60, 41, 75, 54, 91, 0xFFFF, 0xFFFF],
           written = [0, 2, 4, 6, 8, 1, 3, 5, 7, 9] \<rparr>"
  by (simp add: audio_eval cong: bindE_weak_cong)

subsection \<open>Sample count and stride\<close>

lemma memset_out_Inr:
  assumes "memset_out ob n = Inr ob0"
  shows "0 \<le> memset_count n" and "length (samples ob0) = length (samples ob)"
    and "written ob0 = written ob"
    and "\<forall>i < nat (memset_count n) div 2. samples ob0 ! i = 0"
    and "\<forall>i. nat (memset_count n) div 2 \<le> i \<longrightarrow> samples ob0 ! i = samples ob ! i"
  using assms by (auto simp: memset_out_def Let_def nth_append split: if_splits)

lemma decode_channel0_Inr:
  assumes "decode_channel0 raw ob n = Inr (d1, ob1)"
  shows "mAudioFrameSizeBytes d1 = 2 \<and>
         written ob1 = written ob @ map (\<lambda>k. 2 * k) [0..<(if 3 < n then nat n else 3)] \<and>
         length (samples ob1) = length (samples ob) \<and>
         (\<forall>i < nat (memset_count n) div 2.
              i \<notin> set (map (\<lambda>k. 2 * k) [0..<(if 3 < n then nat n else 3)])
               \<longrightarrow> samples ob1 ! i = 0) \<and>
         (\<forall>i. nat (memset_count n) div 2 \<le> i \<longrightarrow>
              i \<notin> set (map (\<lambda>k. 2 * k) [0..<(if 3 < n then nat n else 3)])
               \<longrightarrow> samples ob1 ! i = samples ob ! i)"
proof -
  from assms obtain d0 ob0 where
    su: "SetupAudioDecodePtrs raw (SetAudioFrameSizeBytesAndBits 2 AudioDecompressor_new) = Inr d0" and
    ms: "memset_out ob n = Inr ob0" and
    dc: "decode_16bit_audio_frame raw d0 ob0 0 n False = Inr (d1, ob1)"
    unfolding decode_channel0_def by (auto elim!: bindE_InrE)
  have d0: "mAudioFrameSizeBytes d0 = 2"
    using su by (auto simp: SetupAudioDecodePtrs_def SetAudioFrameSizeBytesAndBits_def split: if_splits)
  have pos: "(\<lambda>k. nat (0 + int k * 2)) = (\<lambda>k. 2 * k)"
    by (rule ext) simp
  note m = memset_out_Inr[OF ms]
  from decode_16bit_audio_frame_Inr[OF dc] m show ?thesis
    unfolding d0 pos by auto
qed

lemma decode_audio_frame_Inr:
  assumes "decode_audio_frame raw ob n = Inr ob2"
  shows "written ob2 = written ob @ map (\<lambda>k. 2 * k) [0..<(if 3 < n then nat n else 3)]
                                  @ map (\<lambda>k. 2 * k + 1) [0..<(if 3 < n then nat n else 3)] \<and>
         length (samples ob2) = length (samples ob) \<and>
         (\<forall>i. nat (memset_count n) div 2 \<le> i \<longrightarrow>
              i \<notin> set (map (\<lambda>k. 2 * k) [0..<(if 3 < n then nat n else 3)]
                        @ map (\<lambda>k. 2 * k + 1) [0..<(if 3 < n then nat n else 3)])
               \<longrightarrow> samples ob2 ! i = samples ob ! i)"
proof -
  from assms obtain d1 ob1 where c0: "decode_channel0 raw ob n = Inr (d1, ob1)" and
    rest: "(if mAudioFrameSizeBytes d1 = 2
            then bindE (decode_16bit_audio_frame raw d1 ob1 1 n True) (\<lambda>(d', ob2). Inr ob2)
            else Inr ob1) = Inr ob2"
    unfolding decode_audio_frame_def by (auto elim!: bindE_InrE)
  note a = decode_channel0_Inr[OF c0]
  with rest obtain d2 where c1: "decode_16bit_audio_frame raw d1 ob1 1 n True = Inr (d2, ob2)"
    by (auto elim!: bindE_InrE)
  have pos: "(\<lambda>k. nat (1 + int k * mAudioFrameSizeBytes d1)) = (\<lambda>k. 2 * k + 1)"
    using a by (intro ext) (simp add: nat_add_distrib nat_mult_distrib)
  from decode_16bit_audio_frame_Inr[OF c1] a show ?thesis
    unfolding pos by auto
qed

text \<open>
  Claim C3 (as amended). When \<open>samplesPerFrame \<ge> 3\<close>, one run of the channel decoder stores exactly
  \<open>samplesPerFrame\<close> samples, at \<open>outPtr, outPtr + stride, outPtr + 2 * stride, ...\<close> where \<open>stride\<close> is
  \<^verbatim>\<open>mAudioFrameSizeBytes\<close> (consecutive positions for stride 1); and \<^verbatim>\<open>Masher::decode_audio_frame\<close>,
  which always sets the stride to 2 and always decodes two channels, stores \<open>samplesPerFrame\<close>
  samples of channel 0 at the even positions \<open>0, 2, ...\<close> and then \<open>samplesPerFrame\<close> samples of
  channel 1 at the odd positions \<open>1, 3, ...\<close>.
\<close>

theorem audio_sample_positions:
  "(decode_16bit_audio_frame raw d ob p n isLast = Inr (d', ob') \<longrightarrow> 3 \<le> n \<longrightarrow>
      written ob' = written ob @ map (\<lambda>k. nat (p + int k * mAudioFrameSizeBytes d)) [0..<nat n]) \<and>
   (decode_audio_frame raw ob n = Inr ob'' \<longrightarrow> 3 \<le> n \<longrightarrow>
      written ob'' = written ob @ map (\<lambda>k. 2 * k) [0..<nat n] @ map (\<lambda>k. 2 * k + 1) [0..<nat n])"
proof (intro conjI impI)
  assume "decode_16bit_audio_frame raw d ob p n isLast = Inr (d', ob')" and n: "3 \<le> n"
  from decode_16bit_audio_frame_Inr[OF this(1)] n
  show "written ob' = written ob @ map (\<lambda>k. nat (p + int k * mAudioFrameSizeBytes d)) [0..<nat n]"
    by (cases "3 < n") auto
next
  assume "decode_audio_frame raw ob n = Inr ob''" and n: "3 \<le> n"
  from decode_audio_frame_Inr[OF this(1)] n
  show "written ob'' = written ob @ map (\<lambda>k. 2 * k) [0..<nat n] @ map (\<lambda>k. 2 * k + 1) [0..<nat n]"
    by (cases "3 < n") auto
qed

theorem audio_sample_positions_witness:
  "decode_audio_frame audio_frame_example out_buffer_example 5 =
     Inr \<lparr> samples = [10, 40, 20, 50, 30, 60, 41, 75, 54, 91, 0xFFFF, 0xFFFF],
           written = [0, 2, 4, 6, 8, 1, 3, 5, 7, 9] \<rparr> \<and>
   (3 :: int) \<le> 5 \<and>
   [0, 2, 4, 6, 8, 1, 3, 5, 7, 9]
     = written out_buffer_example @ map (\<lambda>k. 2 * k) [0..<nat 5] @ map (\<lambda>k. 2 * k + 1) [0..<nat 5]"
proof -
  note ex = decode_audio_frame_example
  from audio_sample_positions[where raw = audio_frame_example and ob = out_buffer_example and n = 5
         and ob'' = "\<lparr> samples = [10, 40, 20, 50, 30, 60, 41, 75, 54, 91, 0xFFFF, 0xFFFF],
                       written = [0, 2, 4, 6, 8, 1, 3, 5, 7, 9] \<rparr>"] ex
  have "[0, 2, 4, 6, 8, 1, 3, 5, 7, 9]
     = written out_buffer_example @ map (\<lambda>k. 2 * k) [0..<nat 5] @ map (\<lambda>k. 2 * k + 1) [0..<nat 5]"
    by simp
  with ex show ?thesis by simp
qed

text \<open>
  The claim as written fails for \<open>samplesPerFrame < 3\<close>: the three seed samples of each channel
  are stored whatever the count is. With \<open>samplesPerFrame = 0\<close> the example frame yields three
  samples per channel, at positions 0, 2, 4 and 1, 3, 5, where the claim has none.
\<close>

theorem audio_seeds_always_stored_counterexample:
  "decode_audio_frame audio_frame_example out_buffer_example 0 =
     Inr \<lparr> samples = [10, 8, 20, 40, 30, 50, 0xFFFF, 0xFFFF, 0xFFFF, 0xFFFF, 0xFFFF, 0xFFFF],
           written = [0, 2, 4, 1, 3, 5] \<rparr>"
  by (simp add: audio_eval cong: bindE_weak_cong)


section \<open>Audio: the zero fill and the first stores\<close>

lemma memset_count_small:
  assumes "0 \<le> n" "n < 2 ^ 29"
  shows "memset_count n = 4 * n"
proof -
  have "(word_of_int n * 4 :: s32) = word_of_int (4 * n)"
    by simp
  moreover have "sint (word_of_int (4 * n) :: s32) = 4 * n"
    using assms by (intro sint32_small) simp_all
  ultimately show ?thesis
    by (simp only: memset_count_def)
qed

lemma low_half: "(ucast ((ucast a OR push_bit 16 (ucast b) :: u32) AND 65535) :: u16) = a"
  for a b :: u16
proof -
  have m: "(65535 :: u32) = mask 16"
    by (simp add: mask_eq_exp_minus_1)
  show ?thesis
    unfolding m
    by (rule bit_word_eqI) (auto simp: bit_simps dest: bit_imp_le_length)
qed

lemma high_half: "drop_bit 16 (ucast a OR push_bit 16 (ucast b) :: u32) = ucast b"
  for a b :: u16
  by (rule bit_word_eqI) (auto simp: bit_simps dest: bit_imp_le_length)

lemma one_shifted_16: "(push_bit 16 1 :: u32) - 1 = 65535"
  by simp

lemma NextSoundBits_16_at:
  assumes at: "reader_at raw d i" and rd: "NextSoundBits raw d 16 = Inr (r, d')"
  shows "r = raw ! i" and "reader_at raw d' (i + 1)"
    and "mAudioFrameSizeBytes d' = mAudioFrameSizeBytes d"
proof -
  from at have u: "mUsedBits d = 32" and p: "mAudioFrameDataPtr d = i + 2" and
    w: "mWorkBits d = ucast (raw ! i) OR push_bit 16 (ucast (raw ! (i + 1)))"
    by (simp_all add: reader_at_def)
  let ?w = "drop_bit 16 (mWorkBits d)"
  from rd u have
    rd': "bindE (ReadNextAudioWord raw (d\<lparr> mUsedBits := 16, mWorkBits := ?w \<rparr>) ?w)
            (\<lambda>(w', d2). Inr (ucast (mWorkBits d AND 65535) :: s16, d2\<lparr> mWorkBits := w' \<rparr>))
          = Inr (r, d')"
    by (simp add: NextSoundBits_def shl32_def shr32_def Let_def bindE_Inr)
  then obtain w' d2 where
    rn: "ReadNextAudioWord raw (d\<lparr> mUsedBits := 16, mWorkBits := ?w \<rparr>) ?w = Inr (w', d2)" and
    r: "r = ucast (mWorkBits d AND 65535)" and d': "d' = d2\<lparr> mWorkBits := w' \<rparr>"
    by (auto elim!: bindE_InrE)
  from rn p have lt: "i + 2 < length raw" and
    w': "w' = ?w OR push_bit 16 (ucast (raw ! (i + 2)))" and
    d2: "d2 = d\<lparr> mUsedBits := 32, mWorkBits := ?w, mAudioFrameDataPtr := i + 3 \<rparr>"
    by (auto simp: ReadNextAudioWord_def shl32_def bindE_Inr split: if_splits)
  from r w show "r = raw ! i"
    by (simp add: low_half)
  have hw: "?w = ucast (raw ! (i + 1))"
    by (simp only: w high_half)
  from d' d2 w' lt show "reader_at raw d' (i + 1)"
    unfolding hw by (simp add: reader_at_def)
  from d' d2 show "mAudioFrameSizeBytes d' = mAudioFrameSizeBytes d"
    by simp
qed

lemma read_seed_at:
  assumes at: "reader_at raw d i" and rs: "read_seed raw (d, ob, p) = Inr (v, d', ob', p')"
  shows "samples ob' = (samples ob)[nat p := raw ! i]" and "reader_at raw d' (i + 1)"
proof -
  from rs obtain previous where
    n: "NextSoundBits raw d 16 = Inr (previous, d')" and
    s: "store_sample p previous ob = Inr ob'"
    by (auto simp: read_seed_def elim!: bindE_InrE split: prod.splits)
  from NextSoundBits_16_at[OF at n] store_sample_Inr(4)[OF s]
  show "samples ob' = (samples ob)[nat p := raw ! i]" and "reader_at raw d' (i + 1)"
    by simp_all
qed

lemma decode_16bit_audio_frame_seeds:
  assumes run: "decode_16bit_audio_frame raw d ob p n isLast = Inr (d', ob')"
    and at: "reader_at raw d i" and stride: "0 < mAudioFrameSizeBytes d" and p0: "0 \<le> p"
  shows "samples ob' ! nat p = raw ! (i + 4) \<and>
         samples ob' ! nat (p + mAudioFrameSizeBytes d) = raw ! (i + 5) \<and>
         samples ob' ! nat (p + 2 * mAudioFrameSizeBytes d) = raw ! (i + 6)"
proof -
  let ?s = "mAudioFrameSizeBytes d"
  let ?m = "if 3 < n then nat (n - 3) else 0"
  from run obtain f d1 a d2 b d3 c d4 v1 d5 ob5 p5 v2 d6 ob6 p6 v3 d7 ob7 p7 st d8 where
    n1: "NextSoundBits raw d 16 = Inr (f, d1)" and
    n2: "NextSoundBits raw d1 16 = Inr (a, d2)" and
    n3: "NextSoundBits raw d2 16 = Inr (b, d3)" and
    n4: "NextSoundBits raw d3 16 = Inr (c, d4)" and
    s1: "read_seed raw (d4, ob, p) = Inr (v1, d5, ob5, p5)" and
    s2: "read_seed raw (d5, ob5, p5) = Inr (v2, d6, ob6, p6)" and
    s3: "read_seed raw (d6, ob6, p6) = Inr (v3, d7, ob7, p7)" and
    lp: "(if 3 < n
          then sample_loop (nat (n - 3)) raw f a b c
                 \<lparr> reader = d7, outbuf = ob7, outPtr = p7, previousValues = (v1, v2, v3) \<rparr>
          else Inr \<lparr> reader = d7, outbuf = ob7, outPtr = p7, previousValues = (v1, v2, v3) \<rparr>) = Inr st" and
    res: "ob' = outbuf st"
    unfolding decode_16bit_audio_frame_def
    by (auto elim!: bindE_InrE split: prod.splits)
  note a1 = NextSoundBits_16_at[OF at n1]
  note a2 = NextSoundBits_16_at[OF a1(2) n2]
  note a3 = NextSoundBits_16_at[OF a2(2) n3]
  note a4 = NextSoundBits_16_at[OF a3(2) n4]
  have d4: "mAudioFrameSizeBytes d4 = ?s"
    using a1(3) a2(3) a3(3) a4(3) by simp
  have e: "i + 1 + 1 + 1 + 1 = i + 4" "i + 4 + 1 = i + 5" "i + 5 + 1 = i + 6"
    by simp_all
  have at4: "reader_at raw d4 (i + 4)"
    using a4(2) by (simp only: e)
  note r1 = read_seed_Inr[OF s1]
  note r2 = read_seed_Inr[OF s2]
  note r3 = read_seed_Inr[OF s3]
  note v1 = read_seed_at[OF at4 s1]
  have at5: "reader_at raw d5 (i + 5)" using v1(2) by (simp only: e)
  note v2 = read_seed_at[OF at5 s2]
  have at6: "reader_at raw d6 (i + 6)" using v2(2) by (simp only: e)
  note v3 = read_seed_at[OF at6 s3]
  have d7: "mAudioFrameSizeBytes d7 = ?s" using r1(1) r2(1) r3(1) d4 by simp
  have p5: "p5 = p + ?s" and p6: "p6 = p + 2 * ?s" and p7: "p7 = p + 3 * ?s"
    using r1(2) r2(2) r3(2) r1(1) r2(1) d4 by simp_all
  have len: "nat p < length (samples ob)" "nat (p + ?s) < length (samples ob)"
    "nat (p + 2 * ?s) < length (samples ob)"
    using r1(4) r2(4) r3(4) v1(1) v2(1) p5 p6 by simp_all
  have ne: "nat p \<noteq> nat (p + ?s)" "nat p \<noteq> nat (p + 2 * ?s)" "nat (p + ?s) \<noteq> nat (p + 2 * ?s)"
    using stride p0 by simp_all
  have ob7: "samples ob7 = (samples ob)[nat p := raw ! (i + 4), nat (p + ?s) := raw ! (i + 5),
                                        nat (p + 2 * ?s) := raw ! (i + 6)]"
    using v1(1) v2(1) v3(1) p5 p6 by simp
  have keep: "samples (outbuf st) ! j = samples ob7 ! j"
    if "j = nat p \<or> j = nat (p + ?s) \<or> j = nat (p + 2 * ?s)" for j
  proof (cases "3 < n")
    case True
    with lp have l: "sample_loop (nat (n - 3)) raw f a b c
                       \<lparr> reader = d7, outbuf = ob7, outPtr = p7, previousValues = (v1, v2, v3) \<rparr>
                     = Inr st"
      by simp
    have "j \<notin> set (map (\<lambda>k. nat (p7 + int k * ?s)) [0..<nat (n - 3)])"
    proof
      assume "j \<in> set (map (\<lambda>k. nat (p7 + int k * ?s)) [0..<nat (n - 3)])"
      then obtain k where "j = nat (p + 3 * ?s + int k * ?s)"
        using p7 by auto
      moreover have "0 \<le> int k * ?s" using stride by simp
      ultimately have "int j \<ge> p + 3 * ?s" using p0 stride by simp
      with that p0 stride show False by auto
    qed
    with sample_loop_Inr[OF l] d7 show ?thesis by simp
  next
    case False
    with lp show ?thesis by auto
  qed
  from keep[of "nat p"] keep[of "nat (p + ?s)"] keep[of "nat (p + 2 * ?s)"] ob7 len ne res
  show ?thesis by simp
qed

lemma decode_channel0_seeds:
  assumes "decode_channel0 raw ob n = Inr (d1, ob1)"
  shows "samples ob1 ! 0 = raw ! 4 \<and> samples ob1 ! 2 = raw ! 5 \<and> samples ob1 ! 4 = raw ! 6"
proof -
  from assms obtain d0 ob0 where
    su: "SetupAudioDecodePtrs raw (SetAudioFrameSizeBytesAndBits 2 AudioDecompressor_new) = Inr d0" and
    dc: "decode_16bit_audio_frame raw d0 ob0 0 n False = Inr (d1, ob1)"
    unfolding decode_channel0_def by (auto elim!: bindE_InrE)
  from su have d0: "mAudioFrameSizeBytes d0 = 2" and at: "reader_at raw d0 0"
    by (auto simp: SetupAudioDecodePtrs_def SetAudioFrameSizeBytesAndBits_def reader_at_def
             split: if_splits)
  from decode_16bit_audio_frame_seeds[OF dc at] d0 show ?thesis
    by simp
qed

lemma decode_audio_frame_seeds:
  assumes "decode_audio_frame raw ob n = Inr ob2"
  shows "samples ob2 ! 0 = raw ! 4 \<and> samples ob2 ! 2 = raw ! 5 \<and> samples ob2 ! 4 = raw ! 6"
proof -
  from assms obtain d1 ob1 where c0: "decode_channel0 raw ob n = Inr (d1, ob1)" and
    rest: "(if mAudioFrameSizeBytes d1 = 2
            then bindE (decode_16bit_audio_frame raw d1 ob1 1 n True) (\<lambda>(d', ob2). Inr ob2)
            else Inr ob1) = Inr ob2"
    unfolding decode_audio_frame_def by (auto elim!: bindE_InrE)
  note a = decode_channel0_Inr[OF c0]
  with rest obtain d2 where c1: "decode_16bit_audio_frame raw d1 ob1 1 n True = Inr (d2, ob2)"
    by (auto elim!: bindE_InrE)
  have keep: "samples ob2 ! j = samples ob1 ! j" if "even j" for j
  proof -
    have "j \<notin> set (map (\<lambda>k. nat (1 + int k * mAudioFrameSizeBytes d1))
                         [0..<(if 3 < n then nat n else 3)])"
      using that a by (auto simp: nat_add_distrib nat_mult_distrib)
    with decode_16bit_audio_frame_Inr[OF c1] show ?thesis by blast
  qed
  from keep[of 0] keep[of 2] keep[of 4]
  have "samples ob2 ! 0 = samples ob1 ! 0" "samples ob2 ! 2 = samples ob1 ! 2"
    "samples ob2 ! 4 = samples ob1 ! 4"
    by simp_all
  with decode_channel0_seeds[OF c0] show ?thesis by simp
qed

text \<open>
  Claim C10. \<^verbatim>\<open>decode_audio_frame\<close> clears the first \<^verbatim>\<open>numSamplesPerFrame * 4\<close> bytes of the output
  buffer, which are \<open>2 * samplesPerFrame\<close> 16-bit positions as long as the 32-bit product does not
  overflow, and it does so before the first channel is decoded:
  \<^item> when channel 0 has been decoded and channel 1 not yet, every position within the cleared
    range that channel 0 has not stored to holds 0, whatever the buffer held before, and the
    positions beyond the range that it has not stored to hold what they held before;
  \<^item> the stores of the decoder are not cleared again: its first three stores, the seeds of
    channel 0 (words 4, 5 and 6 of the frame), are in the buffer at positions 0, 2 and 4 after
    channel 0 and at the end of the frame.
\<close>

theorem audio_zero_fill:
  "(decode_channel0 raw ob n = Inr (d1, ob1) \<longrightarrow>
      (\<forall>i < nat (memset_count n) div 2.
          i \<notin> set (drop (length (written ob)) (written ob1)) \<longrightarrow> samples ob1 ! i = 0) \<and>
      (\<forall>i. nat (memset_count n) div 2 \<le> i \<longrightarrow>
          i \<notin> set (drop (length (written ob)) (written ob1)) \<longrightarrow>
          samples ob1 ! i = samples ob ! i) \<and>
      samples ob1 ! 0 = raw ! 4 \<and> samples ob1 ! 2 = raw ! 5 \<and> samples ob1 ! 4 = raw ! 6) \<and>
   (decode_audio_frame raw ob n = Inr ob2 \<longrightarrow>
      samples ob2 ! 0 = raw ! 4 \<and> samples ob2 ! 2 = raw ! 5 \<and> samples ob2 ! 4 = raw ! 6 \<and>
      (\<forall>i. nat (memset_count n) div 2 \<le> i \<longrightarrow>
          i \<notin> set (drop (length (written ob)) (written ob2)) \<longrightarrow>
          samples ob2 ! i = samples ob ! i)) \<and>
   (0 \<le> n \<and> n < 2 ^ 29 \<longrightarrow> nat (memset_count n) div 2 = nat (2 * n))"
proof (intro conjI impI)
  assume c0: "decode_channel0 raw ob n = Inr (d1, ob1)"
  from decode_channel0_Inr[OF c0]
  show "\<forall>i < nat (memset_count n) div 2.
          i \<notin> set (drop (length (written ob)) (written ob1)) \<longrightarrow> samples ob1 ! i = 0"
    and "\<forall>i. nat (memset_count n) div 2 \<le> i \<longrightarrow>
          i \<notin> set (drop (length (written ob)) (written ob1)) \<longrightarrow>
          samples ob1 ! i = samples ob ! i"
    by simp_all
  from decode_channel0_seeds[OF c0]
  show "samples ob1 ! 0 = raw ! 4" "samples ob1 ! 2 = raw ! 5" "samples ob1 ! 4 = raw ! 6"
    by simp_all
next
  assume f: "decode_audio_frame raw ob n = Inr ob2"
  from decode_audio_frame_seeds[OF f]
  show "samples ob2 ! 0 = raw ! 4" "samples ob2 ! 2 = raw ! 5" "samples ob2 ! 4 = raw ! 6"
    by simp_all
  from decode_audio_frame_Inr[OF f]
  show "\<forall>i. nat (memset_count n) div 2 \<le> i \<longrightarrow>
          i \<notin> set (drop (length (written ob)) (written ob2)) \<longrightarrow>
          samples ob2 ! i = samples ob ! i"
    by simp
next
  assume "0 \<le> n \<and> n < 2 ^ 29"
  then have "memset_count n = 4 * n" by (simp add: memset_count_small)
  moreover have "nat (4 * n) div 2 = nat (2 * n)"
    by (simp add: nat_mult_distrib)
  ultimately show "nat (memset_count n) div 2 = nat (2 * n)" by simp
qed

theorem audio_zero_fill_witness:
  "decode_channel0 audio_frame_example out_buffer_example 5 =
     Inr (\<lparr> mUsedBits = 32, mWorkBits = 524288, mAudioFrameDataPtr = 10, mAudioFrameSizeBytes = 2 \<rparr>,
          \<lparr> samples = [10, 0, 20, 0, 30, 0, 41, 0, 54, 0, 0xFFFF, 0xFFFF],
            written = [0, 2, 4, 6, 8] \<rparr>) \<and>
   decode_audio_frame audio_frame_example out_buffer_example 5 =
     Inr \<lparr> samples = [10, 40, 20, 50, 30, 60, 41, 75, 54, 91, 0xFFFF, 0xFFFF],
           written = [0, 2, 4, 6, 8, 1, 3, 5, 7, 9] \<rparr> \<and>
   nat (memset_count 5) div 2 = 10 \<and>
   samples out_buffer_example ! 7 = 0xFFFF \<and>
   [10, 0, 20, 0, 30, 0, 41, 0, 54, 0, 0xFFFF, 0xFFFF :: u16] ! 7 = 0 \<and>
   [10, 0, 20, 0, 30, 0, 41, 0, 54, 0, 0xFFFF, 0xFFFF :: u16] ! 11 = samples out_buffer_example ! 11 \<and>
   [10, 0, 20, 0, 30, 0, 41, 0, 54, 0, 0xFFFF, 0xFFFF :: u16] ! 0 = audio_frame_example ! 4 \<and>
   [10, 40, 20, 50, 30, 60, 41, 75, 54, 91, 0xFFFF, 0xFFFF :: u16] ! 0 = audio_frame_example ! 4 \<and>
   [10, 40, 20, 50, 30, 60, 41, 75, 54, 91, 0xFFFF, 0xFFFF :: u16] ! 2 = audio_frame_example ! 5 \<and>
   [10, 40, 20, 50, 30, 60, 41, 75, 54, 91, 0xFFFF, 0xFFFF :: u16] ! 4 = audio_frame_example ! 6"
proof -
  let ?d = "\<lparr> mUsedBits = 32, mWorkBits = 524288, mAudioFrameDataPtr = 10,
              mAudioFrameSizeBytes = 2 \<rparr>"
  let ?ob1 = "\<lparr> samples = [10, 0, 20, 0, 30, 0, 41, 0, 54, 0, 0xFFFF, 0xFFFF :: u16],
                written = [0, 2, 4, 6, 8] \<rparr>"
  let ?ob2 = "\<lparr> samples = [10, 40, 20, 50, 30, 60, 41, 75, 54, 91, 0xFFFF, 0xFFFF :: u16],
                written = [0, 2, 4, 6, 8, 1, 3, 5, 7, 9] \<rparr>"
  note c0 = decode_channel0_example and f = decode_audio_frame_example
  note th = audio_zero_fill[where raw = audio_frame_example and ob = out_buffer_example and n = 5
              and ?d1.0 = ?d and ?ob1.0 = ?ob1 and ?ob2.0 = ?ob2]
  from th have cnt: "nat (memset_count 5) div 2 = 10"
    by simp
  from th c0 have
    z: "\<forall>i < nat (memset_count 5) div 2.
          i \<notin> set (drop (length (written out_buffer_example)) (written ?ob1)) \<longrightarrow>
          samples ?ob1 ! i = 0" and
    k: "\<forall>i. nat (memset_count 5) div 2 \<le> i \<longrightarrow>
          i \<notin> set (drop (length (written out_buffer_example)) (written ?ob1)) \<longrightarrow>
          samples ?ob1 ! i = samples out_buffer_example ! i" and
    s1: "samples ?ob1 ! 0 = audio_frame_example ! 4"
    by blast+
  from th f have
    s2: "samples ?ob2 ! 0 = audio_frame_example ! 4" "samples ?ob2 ! 2 = audio_frame_example ! 5"
      "samples ?ob2 ! 4 = audio_frame_example ! 6"
    by blast+
  have w: "drop (length (written out_buffer_example)) (written ?ob1) = [0, 2, 4, 6, 8]"
    by (simp add: out_buffer_example_def)
  from z[unfolded cnt w, rule_format, of 7] have z7: "samples ?ob1 ! 7 = 0"
    by simp
  from k[unfolded cnt w, rule_format, of 11]
  have k11: "samples ?ob1 ! 11 = samples out_buffer_example ! 11"
    by simp
  have p: "samples out_buffer_example ! 7 = 0xFFFF"
    by (simp add: out_buffer_example_def)
  from c0 f cnt p z7 k11 s1 s2 show ?thesis
    by simp
qed

section \<open>Audio: the table lookup and the expansion against the specification\<close>

lemma snd_tbl_loop_0: "snd_tbl_loop 0 tableValue = tableValue"
  by (simp add: snd_tbl_loop.simps)

lemma snd_tbl_loop_range:
  assumes "2 ^ k \<le> i" "i < 2 ^ Suc k"
  shows "snd_tbl_loop i tableValue = tableValue + k + 1"
  using assms
proof (induction k arbitrary: i tableValue)
  case 0
  then have "i = 1" by simp
  then show ?case
    by (simp add: snd_tbl_loop.simps[of "Suc 0"] snd_tbl_loop_0)
next
  case (Suc k)
  then have pos: "0 < i" and half: "2 ^ k \<le> i div 2" "i div 2 < 2 ^ Suc k"
    by simp_all
  have "snd_tbl_loop i tableValue = snd_tbl_loop (i div 2) (tableValue + 1)"
    using pos by (simp add: snd_tbl_loop.simps[of i])
  also have "\<dots> = tableValue + 1 + k + 1"
    by (rule Suc.IH[OF half])
  finally show ?case by simp
qed

lemma snd_tbl_loop_bits:
  assumes "i < 256"
  shows "snd_tbl_loop i 0 = bits_to_represent i"
proof -
  consider "i = 0" | "2 ^ 0 \<le> i \<and> i < 2 ^ Suc 0" | "2 ^ 1 \<le> i \<and> i < 2 ^ Suc 1"
    | "2 ^ 2 \<le> i \<and> i < 2 ^ Suc 2" | "2 ^ 3 \<le> i \<and> i < 2 ^ Suc 3"
    | "2 ^ 4 \<le> i \<and> i < 2 ^ Suc 4" | "2 ^ 5 \<le> i \<and> i < 2 ^ Suc 5"
    | "2 ^ 6 \<le> i \<and> i < 2 ^ Suc 6" | "2 ^ 7 \<le> i \<and> i < 2 ^ Suc 7"
    using assms by (simp add: numeral_eq_Suc) linarith
  then show ?thesis
  proof cases
    case 1
    then show ?thesis by (simp add: snd_tbl_loop_0 bits_to_represent_def)
  next
    case 2
    from snd_tbl_loop_range[of 0 i 0] 2 show ?thesis by (simp add: bits_to_represent_def)
  next
    case 3
    from snd_tbl_loop_range[of 1 i 0] 3 show ?thesis by (simp add: bits_to_represent_def)
  next
    case 4
    from snd_tbl_loop_range[of 2 i 0] 4 show ?thesis by (simp add: bits_to_represent_def)
  next
    case 5
    from snd_tbl_loop_range[of 3 i 0] 5 show ?thesis by (simp add: bits_to_represent_def)
  next
    case 6
    from snd_tbl_loop_range[of 4 i 0] 6 show ?thesis by (simp add: bits_to_represent_def)
  next
    case 7
    from snd_tbl_loop_range[of 5 i 0] 7 show ?thesis by (simp add: bits_to_represent_def)
  next
    case 8
    from snd_tbl_loop_range[of 6 i 0] 8 show ?thesis by (simp add: bits_to_represent_def)
  next
    case 9
    from snd_tbl_loop_range[of 7 i 0] 9 show ?thesis by (simp add: bits_to_represent_def)
  qed
qed

lemma bits_to_represent_le: "bits_to_represent i \<le> 8"
  by (simp add: bits_to_represent_def)

lemma gSndTbl_nth:
  assumes "i < 256"
  shows "gSndTbl_byte_62EEB0 ! i = of_nat (bits_to_represent i)"
  using assms by (simp add: gSndTbl_byte_62EEB0_def snd_tbl_loop_bits)

lemma uint_word_of_int_32:
  assumes "0 \<le> k" "k < 2 ^ 32"
  shows "uint (word_of_int k :: u32) = k"
  using assms by (simp add: uint_word_of_int_eq take_bit_int_eq_self)

lemma drop_bit_word_of_int_32:
  assumes "0 \<le> k" "k < 2 ^ 32"
  shows "drop_bit n (word_of_int k :: u32) = word_of_int (drop_bit n k)"
proof -
  have "k div 2 ^ n \<le> k div 1"
    using assms(1) by (intro zdiv_mono2) simp_all
  then have d: "0 \<le> drop_bit n k" "drop_bit n k < 2 ^ 32"
    using assms by (simp_all add: drop_bit_eq_div pos_imp_zdiv_nonneg_iff)
  have "uint (drop_bit n (word_of_int k :: u32)) = drop_bit n k"
    using assms by (simp add: unsigned_drop_bit_eq uint_word_of_int_32 take_bit_int_eq_self)
  moreover have "uint (word_of_int (drop_bit n k) :: u32) = drop_bit n k"
    using d by (rule uint_word_of_int_32)
  ultimately show ?thesis
    by (simp only: word_uint_eq_iff)
qed


lemma ucast_32_16_word_of_int: "(ucast (word_of_int k :: u32) :: u16) = word_of_int k"
proof -
  have "(ucast (word_of_int k :: u32) :: u16) = word_of_int (uint (word_of_int k :: u32))"
    by (simp only: ucast_eq)
  also have "\<dots> = word_of_int (take_bit 32 k)"
    by (simp add: uint_word_of_int_eq)
  also have "\<dots> = word_of_int k"
    by (simp add: word_of_int_eq_iff min_def)
  finally show ?thesis .
qed

lemma ucast_16_32_word_of_int:
  assumes "0 \<le> k" "k < 2 ^ 16"
  shows "(ucast (word_of_int k :: u16) :: u32) = word_of_int k"
proof -
  have "(ucast (word_of_int k :: u16) :: u32) = word_of_int (uint (word_of_int k :: u16))"
    by (simp only: ucast_eq)
  also have "uint (word_of_int k :: u16) = k"
    using assms by (simp add: uint_word_of_int_eq take_bit_int_eq_self)
  finally show ?thesis .
qed

lemma ucast_8_32_of_nat:
  assumes "n < 256"
  shows "(ucast (of_nat n :: u8) :: u32) = word_of_int (int n)" "uint (of_nat n :: u8) = int n"
proof -
  show u: "uint (of_nat n :: u8) = int n"
    using assms by (simp add: uint_word_of_int_eq take_bit_int_eq_self unsigned_of_nat take_bit_nat_eq_self)
  have "(ucast (of_nat n :: u8) :: u32) = word_of_int (uint (of_nat n :: u8))"
    by (simp only: ucast_eq)
  then show "(ucast (of_nat n :: u8) :: u32) = word_of_int (int n)"
    by (simp only: u)
qed

lemma unat_word_of_int_32:
  assumes "0 \<le> k" "k < 2 ^ 32"
  shows "unat (word_of_int k :: u32) = nat k"
  using uint_word_of_int_32[OF assms] by (simp only: unat_eq_nat_uint)

lemma abs_s16_eq: "abs_s16 x = word_of_int \<bar>sint x\<bar>"
proof (cases "sint x < 0")
  case True
  then have "abs_s16 x = - word_of_int (sint x)"
    by (simp only: abs_s16_def scast_eq if_True)
  also have "\<dots> = word_of_int (- sint x)"
    by (simp only: of_int_minus)
  finally show ?thesis using True by (simp only: abs_of_neg)
next
  case False
  then have "abs_s16 x = word_of_int (sint x)"
    by (simp only: abs_s16_def scast_eq if_False)
  then show ?thesis using False by (simp only: abs_of_nonneg not_less)
qed

lemma abs_sint16_bounds: "0 \<le> \<bar>sint (x :: s16)\<bar>" "\<bar>sint (x :: s16)\<bar> \<le> 32768"
  using sint_ge[of x] sint_lt[of x] by simp_all

lemma GetSoundTableValue_signTable:
  "GetSoundTableValue x = Inr (word_of_int (signTable_spec (sint x)))"
proof -
  define a where "a = \<bar>sint x\<bar>"
  have a: "0 \<le> a" "a \<le> 32768"
    unfolding a_def by (rule abs_sint16_bounds)+
  then have a32: "a < 2 ^ 32" and a16: "a < 2 ^ 16" by simp_all
  define h where "h = nat (drop_bit 7 a AND 0xFF)"
  have hb: "0 \<le> drop_bit 7 a AND 0xFF" "drop_bit 7 a AND 0xFF < 256"
    using AND_upper2[of 255 "drop_bit 7 a"] by simp_all
  have h256: "h < 256" using hb unfolding h_def by linarith
  define t where "t = bits_to_represent h"
  have t8: "t \<le> 8" unfolding t_def by (rule bits_to_represent_le)
  have pos: "abs_s16 x = word_of_int a"
    unfolding a_def by (rule abs_s16_eq)
  have ff: "(0xFF :: u32) = word_of_int 0xFF" by simp
  have sh: "drop_bit 7 (abs_s16 x) AND 0xFF = (word_of_int (drop_bit 7 a AND 0xFF) :: u32)"
    by (simp only: pos drop_bit_word_of_int_32[OF a(1) a32] ff of_int_and_eq)
  have idx: "unat (drop_bit 7 (abs_s16 x) AND 0xFF) = h"
    unfolding sh h_def using hb by (intro unat_word_of_int_32) simp_all
  have tb: "gSndTbl_byte_62EEB0 ! h = of_nat t"
    unfolding t_def using h256 by (rule gSndTbl_nth)
  have t256: "t < 256" using t8 by simp
  have ut: "uint (of_nat t :: u8) = int t"
    using t256 by (rule ucast_8_32_of_nat)
  have ct: "(ucast (of_nat t :: u8) :: s32) = word_of_int (int t)"
    using t256 by (rule ucast_8_32_of_nat)
  have shifted: "shr32 (abs_s16 x) (int t) = Inr (word_of_int (drop_bit t a))"
    using t8 by (simp add: shr32_def pos drop_bit_word_of_int_32[OF a(1) a32])
  have pb: "0 \<le> push_bit 7 (int t)" "push_bit 7 (int t) < 2 ^ 16"
    using t8 by (simp_all add: push_bit_eq_mult)
  have "drop_bit t a \<le> a div 1"
    unfolding drop_bit_eq_div using a(1) by (intro zdiv_mono2) simp_all
  then have db: "0 \<le> drop_bit t a" "drop_bit t a < 2 ^ 16"
    using a by simp_all
  have r1: "(ucast (ucast (push_bit 7 (ucast (of_nat t :: u8) :: s32)) :: u16) :: s32)
              = word_of_int (push_bit 7 (int t))"
    by (simp only: ct push_bit_of_int ucast_32_16_word_of_int ucast_16_32_word_of_int[OF pb])
  have r2: "(ucast (ucast (word_of_int (drop_bit t a) :: u32) :: u16) :: s32)
              = word_of_int (drop_bit t a)"
    by (simp only: ucast_32_16_word_of_int ucast_16_32_word_of_int[OF db])
  have "GetSoundTableValue x =
          Inr (if sint x < 0 then - word_of_int (push_bit 7 (int t) OR drop_bit t a)
               else word_of_int (push_bit 7 (int t) OR drop_bit t a))"
    unfolding GetSoundTableValue_def Let_def idx tb ut shifted bindE_Inr r1 r2 of_int_or_eq ..
  also have "\<dots> = Inr (word_of_int (signTable_spec (sint x)))"
    unfolding signTable_spec_def Let_def a_def[symmetric] h_def[symmetric] t_def[symmetric]
    by (simp only: of_int_minus if_distrib[of word_of_int])
  finally show ?thesis .
qed

lemma sub_408F50_expand:
  "sub_408F50 y = (if \<bar>sint y\<bar> < 4096 then Inr (word_of_int (expand_spec (sint y)))
                   else Inl UndefinedShift)"
proof -
  define a where "a = \<bar>sint y\<bar>"
  have a: "0 \<le> a" "a \<le> 32768"
    unfolding a_def by (rule abs_sint16_bounds)+
  then have a32: "a < 2 ^ 32" by simp
  define b where "b = drop_bit 7 a"
  have b: "0 \<le> b" "b \<le> 256" "b < 32 \<longleftrightarrow> a < 4096"
    unfolding b_def drop_bit_eq_div using a by (simp, simp, simp, presburger)
  define m where "m = a AND 0x7F"
  have pos: "abs_s16 y = word_of_int a"
    unfolding a_def by (rule abs_s16_eq)
  have sb: "sint (drop_bit 7 (abs_s16 y)) = b"
    unfolding pos drop_bit_word_of_int_32[OF a(1) a32] b_def[symmetric]
    using b by (intro sint32_small) simp_all
  have c7f: "(0x7F :: u32) = word_of_int 0x7F" by simp
  have sm: "abs_s16 y AND 0x7F = (word_of_int m :: u32)"
    by (simp only: pos c7f of_int_and_eq m_def)
  have one: "(1 :: u32) = word_of_int 1" by simp
  show ?thesis
  proof (cases "a < 4096")
    case True
    then have b32: "b < 32" using b by simp
    have base: "shl32 (word_of_int m) b = Inr (word_of_int (push_bit (nat b) m))"
      using b(1) b32 by (simp add: shl32_def push_bit_of_int)
    have bit: "2 \<le> b \<Longrightarrow> shl32 1 (b - 2) = Inr (word_of_int (push_bit (nat (b - 2)) 1))"
      using b32 by (simp add: shl32_def)
    have "sub_408F50 y =
            Inr (if sint y < 0
                 then - word_of_int (if 2 \<le> b then push_bit (nat b) m OR push_bit (nat (b - 2)) 1
                                     else push_bit (nat b) m)
                 else word_of_int (if 2 \<le> b then push_bit (nat b) m OR push_bit (nat (b - 2)) 1
                                   else push_bit (nat b) m))"
    proof (cases "2 \<le> b")
      case True
      show ?thesis
        unfolding sub_408F50_def Let_def sb sm base bindE_Inr
        using True by (simp only: bit if_True bindE_Inr ucast_32_16_word_of_int of_int_or_eq)
    next
      case False
      show ?thesis
        unfolding sub_408F50_def Let_def sb sm base bindE_Inr
        using False by (simp only: if_False bindE_Inr ucast_32_16_word_of_int)
    qed
    also have "\<dots> = Inr (word_of_int (expand_spec (sint y)))"
      unfolding expand_spec_def Let_def a_def[symmetric] b_def[symmetric] m_def[symmetric]
      by (simp only: of_int_minus if_distrib[of word_of_int])
    finally show ?thesis using True unfolding a_def by (simp only: if_True)
  next
    case False
    then have "\<not> b < 32" using b by simp
    then have "shl32 (word_of_int m) b = Inl UndefinedShift"
      by (simp add: shl32_def)
    then have "sub_408F50 y = Inl UndefinedShift"
      unfolding sub_408F50_def Let_def sb sm by (simp only: bindE_Inl)
    then show ?thesis using False unfolding a_def by (simp only: if_False)
  qed
qed

section \<open>Audio: the predictor step\<close>

lemma sint16_bounds: "- 32768 \<le> sint (a :: 16 word)" "sint (a :: 16 word) < 32768"
  using sint_ge[of a] sint_lt[of a] by simp_all

lemma predictor_sum_sint:
  fixes a1 a2 a3 :: "16 word"
  shows "sint (scast a1 + (5 * scast a3 - 4 * scast a2) :: 32 word)
           = sint a1 + 5 * sint a3 - 4 * sint a2"
proof -
  have eq: "(scast a1 + (5 * scast a3 - 4 * scast a2) :: 32 word)
          = word_of_int (sint a1 + 5 * sint a3 - 4 * sint a2)"
    by simp
  have "sint (word_of_int (sint a1 + 5 * sint a3 - 4 * sint a2) :: 32 word)
          = sint a1 + 5 * sint a3 - 4 * sint a2"
    using sint16_bounds[of a1] sint16_bounds[of a2] sint16_bounds[of a3]
    by (intro sint32_small) linarith+
  then show ?thesis by (simp only: eq)
qed

lemma ucast_down_scast: "(ucast (x :: 32 word) :: 16 word) = scast x"
  by (rule bit_word_eqI) (auto simp: bit_simps)

lemma ucast_down_sint: "(ucast (x :: 32 word) :: 16 word) = word_of_int (sint x)"
  by (simp only: ucast_down_scast scast_eq)

lemma ucast_down_add: "(ucast (x + y :: 32 word) :: 16 word) = ucast x + ucast y"
proof -
  have "(ucast (x + y) :: 16 word) = word_of_int (uint (x + y))" by simp
  also have "\<dots> = word_of_int (take_bit 32 (uint x + uint y))"
    by (simp add: uint_word_arith_bintrs)
  also have "\<dots> = word_of_int (uint x + uint y)"
    by (simp add: word_of_int_eq_iff min_def del: of_int_add)
  also have "\<dots> = ucast x + ucast y" by simp
  finally show ?thesis .
qed

lemma ucast_down_add_sint:
  "(ucast (x + y :: 32 word) :: 16 word) = word_of_int (sint x + sint y)"
proof -
  have "(ucast (x + y) :: 16 word) = ucast x + ucast y"
    by (rule ucast_down_add)
  also have "\<dots> = word_of_int (sint x) + word_of_int (sint y)"
    by (simp only: ucast_down_sint)
  also have "\<dots> = word_of_int (sint x + sint y)"
    by (simp only: of_int_add)
  finally show ?thesis .
qed

lemma sint_scast_16_32: "sint (scast (a :: 16 word) :: 32 word) = sint a"
  by (rule sint_up_scast) (simp add: is_up)

lemma next_sample_unfold:
  fixes a1 a2 a3 s :: s16
  shows "next_sample useTableFlag (scast a1, scast a2, scast a3) s =
     (let P = (sint a1 + 5 * sint a3 - 4 * sint a2) div 2 in
      if useTableFlag \<noteq> 0 then
        bindE (GetSoundTableValue (word_of_int P)) (\<lambda>T.
        bindE (sub_408F50 (word_of_int (sint s + sint T))) (\<lambda>new.
          Inr (scast a2, scast a3, scast new)))
      else Inr (scast a2, scast a3, scast (word_of_int (P + sint s) :: s16)))"
proof -
  define idx :: s32 where "idx = signed_drop_bit 1 (scast a1 + (5 * scast a3 - 4 * scast a2))"
  define P where "P = (sint a1 + 5 * sint a3 - 4 * sint a2) div 2"
  have sidx: "sint idx = P"
    unfolding idx_def P_def
    by (simp only: sint_signed_drop_bit_eq predictor_sum_sint drop_bit_eq_div power_one_right)
  have idx16: "(ucast idx :: s16) = word_of_int P"
    by (simp only: ucast_down_sint sidx)
  have sum16: "(ucast (scast s + T) :: s16) = word_of_int (sint s + sint T)" for T :: s32
    by (simp only: ucast_down_add_sint sint_scast_16_32)
  have lin16: "(ucast (idx + scast s) :: s16) = word_of_int (P + sint s)"
    by (simp only: ucast_down_add_sint sint_scast_16_32 sidx)
  have "next_sample useTableFlag (scast a1, scast a2, scast a3) s =
     (if useTableFlag \<noteq> 0 then
        bindE (GetSoundTableValue (ucast idx)) (\<lambda>T.
        bindE (sub_408F50 (ucast (scast s + T))) (\<lambda>new.
          Inr (scast a2, scast a3, scast new)))
      else Inr (scast a2, scast a3, scast (ucast (idx + scast s) :: s16)))"
    unfolding next_sample_def idx_def Let_def by (simp only: prod.case add_diff_eq)
  then show ?thesis
    unfolding idx16 sum16 lin16 P_def Let_def .
qed


lemma signTable_spec_bounds:
  assumes "- 32768 \<le> x" "x < 32768"
  shows "- 65536 < signTable_spec x" "signTable_spec x < 65536"
proof -
  define a where "a = \<bar>x\<bar>"
  have a: "0 \<le> a" "a \<le> 32768" unfolding a_def using assms by simp_all
  define t where "t = bits_to_represent (nat (drop_bit 7 a AND 0xFF))"
  have t8: "t \<le> 8" unfolding t_def by (rule bits_to_represent_le)
  have pb: "0 \<le> push_bit 7 (int t)" "push_bit 7 (int t) < 2 ^ 16"
    using t8 by (simp_all add: push_bit_eq_mult)
  have "drop_bit t a \<le> a div 1"
    unfolding drop_bit_eq_div using a(1) by (intro zdiv_mono2) simp_all
  then have db: "0 \<le> drop_bit t a" "drop_bit t a < 2 ^ 16"
    using a by simp_all
  define M where "M = push_bit 7 (int t) OR drop_bit t a"
  have m: "0 \<le> M" "M < 65536"
    unfolding M_def using pb(1) db(1) OR_upper[OF pb(1) pb(2) db(2)] by simp_all
  have eq: "signTable_spec x = (if x < 0 then - M else M)"
    unfolding signTable_spec_def Let_def a_def t_def M_def ..
  show "- 65536 < signTable_spec x" "signTable_spec x < 65536"
    unfolding eq using m by auto
qed

lemma sint_signTable_spec:
  "sint (word_of_int (signTable_spec (sint (x :: s16))) :: s32) = signTable_spec (sint x)"
  using signTable_spec_bounds[of "sint x"] sint16_bounds[of x]
  by (intro sint32_small) simp_all

text \<open>
  Claim C7. The predictor state holds sign-extended 16-bit samples \<open>(v1, v2, v3)\<close>. For an
  accepted residual \<open>s\<close> the loop body computes \<open>P = (v1 + 5 * v3 - 4 * v2) >> 1\<close> exactly (no
  32-bit overflow; the arithmetic shift is the floor of the half) and shifts the state to
  \<open>(v2, v3, new)\<close>. When \<^verbatim>\<open>useTableFlag\<close> is not 0, \<open>new = expand (s + signTable P)\<close> with
  \<open>signTable\<close> and \<open>expand\<close> as the specification defines them on integers
  (\<open>signTable_spec\<close>, \<open>expand_spec\<close>): \<open>P\<close> and the sum \<open>s + signTable P\<close> enter them as signed
  16-bit values, the result is kept as a signed 16-bit value, and the shift inside \<open>expand\<close> is
  defined only while the magnitude of its argument is below \<open>4096\<close>. Otherwise \<open>new = P + s\<close>
  truncated to 16 bits.
\<close>

theorem next_sample_predictor:
  fixes a1 a2 a3 s :: s16
  shows "next_sample useTableFlag (scast a1, scast a2, scast a3) s =
     (let P = (sint a1 + 5 * sint a3 - 4 * sint a2) div 2 in
      if useTableFlag \<noteq> 0 then
        (let y = trunc16 (sint s + signTable_spec (trunc16 P)) in
         if \<bar>y\<bar> < 4096
         then Inr (scast a2, scast a3, word_of_int (trunc16 (expand_spec y)))
         else Inl UndefinedShift)
      else Inr (scast a2, scast a3, word_of_int (trunc16 (P + sint s))))"
proof -
  define P where "P = (sint a1 + 5 * sint a3 - 4 * sint a2) div 2"
  define T where "T = signTable_spec (trunc16 P)"
  define y where "y = trunc16 (sint s + T)"
  have tbl: "GetSoundTableValue (word_of_int P) = Inr (word_of_int T)"
    unfolding T_def trunc16_def by (rule GetSoundTableValue_signTable)
  have sT: "sint (word_of_int T :: s32) = T"
    unfolding T_def trunc16_def by (rule sint_signTable_spec)
  have ex: "sub_408F50 (word_of_int (sint s + T)) =
              (if \<bar>y\<bar> < 4096 then Inr (word_of_int (expand_spec y)) else Inl UndefinedShift)"
    unfolding y_def trunc16_def by (rule sub_408F50_expand)
  have sc: "(scast (word_of_int k :: s16) :: s32) = word_of_int (trunc16 k)" for k
    unfolding trunc16_def by (simp only: scast_eq)
  have "next_sample useTableFlag (scast a1, scast a2, scast a3) s =
     (if useTableFlag \<noteq> 0 then
        bindE (if \<bar>y\<bar> < 4096 then Inr (word_of_int (expand_spec y)) else Inl UndefinedShift)
          (\<lambda>new :: s16. Inr (scast a2, scast a3, scast new))
      else Inr (scast a2, scast a3, scast (word_of_int (P + sint s) :: s16)))"
    unfolding next_sample_unfold Let_def P_def[symmetric] tbl bindE_Inr sT ex ..
  also have "\<dots> =
     (if useTableFlag \<noteq> 0 then
        (if \<bar>y\<bar> < 4096 then Inr (scast a2, scast a3, word_of_int (trunc16 (expand_spec y)))
         else Inl UndefinedShift)
      else Inr (scast a2, scast a3, word_of_int (trunc16 (P + sint s))))"
    by (cases "\<bar>y\<bar> < 4096") (simp_all only: if_True if_False bindE_Inr bindE_Inl sc)
  finally show ?thesis
    unfolding Let_def P_def[symmetric] T_def[symmetric] y_def[symmetric] .
qed

theorem next_sample_predictor_witness:
  "next_sample 1 (scast (1000 :: s16), scast (2000 :: s16), scast (3000 :: s16)) 100
     = Inr (2000, 3000, 6224) \<and>
   next_sample 1 (scast (30000 :: s16), scast (- 30000 :: s16), scast (30000 :: s16)) (- 2000)
     = Inr (- 30000, 30000, - 928) \<and>
   next_sample 1 (scast (1000 :: s16), scast (2000 :: s16), scast (3000 :: s16)) 735
     = Inr (2000, 3000, - 7680) \<and>
   next_sample 1 (scast (1000 :: s16), scast (2000 :: s16), scast (3000 :: s16)) 4000
     = Inl UndefinedShift \<and>
   next_sample 0 (scast (30000 :: s16), scast (- 30000 :: s16), scast (30000 :: s16)) 1
     = Inr (- 30000, 30000, 18929)"
proof -
  have P1: "(sint (1000 :: s16) + 5 * sint (3000 :: s16) - 4 * sint (2000 :: s16)) div 2 = 4000"
    by simp
  have P2: "(sint (30000 :: s16) + 5 * sint (30000 :: s16) - 4 * sint (- 30000 :: s16)) div 2
              = 150000"
    by simp
  have T1: "signTable_spec (trunc16 4000) = 765"
    by (simp add: signTable_spec_def trunc16_def bits_to_represent_def Let_def)
  have T2: "signTable_spec (trunc16 150000) = 1097"
    by (simp add: signTable_spec_def trunc16_def bits_to_represent_def Let_def)
  have y1: "trunc16 (sint (100 :: s16) + 765) = 865"
    by (simp add: trunc16_def)
  have y2: "trunc16 (sint (- 2000 :: s16) + 1097) = - 903"
    by (simp add: trunc16_def)
  have y3: "trunc16 (sint (735 :: s16) + 765) = 1500"
    by (simp add: trunc16_def)
  have y4: "trunc16 (sint (4000 :: s16) + 765) = 4765"
    by (simp add: trunc16_def)
  have e1: "trunc16 (expand_spec 865) = 6224"
    by (simp add: expand_spec_def trunc16_def Let_def)
  have e2: "trunc16 (expand_spec (- 903)) = - 928"
    by (simp add: expand_spec_def trunc16_def Let_def)
  have e3: "trunc16 (expand_spec 1500) = - 7680"
    by (simp add: expand_spec_def trunc16_def Let_def)
  have l5: "trunc16 (150000 + sint (1 :: s16)) = 18929"
    by (simp add: trunc16_def)
  have "next_sample 1 (scast (1000 :: s16), scast (2000 :: s16), scast (3000 :: s16)) 100
          = Inr (scast (2000 :: s16), scast (3000 :: s16), word_of_int 6224)"
    unfolding next_sample_predictor[of 1 1000 2000 3000 100] Let_def P1 T1 y1 e1 by simp
  then have w1: "next_sample 1 (scast (1000 :: s16), scast (2000 :: s16), scast (3000 :: s16)) 100
          = Inr (2000, 3000, 6224)"
    by simp
  have "next_sample 1 (scast (30000 :: s16), scast (- 30000 :: s16), scast (30000 :: s16)) (- 2000)
          = Inr (scast (- 30000 :: s16), scast (30000 :: s16), word_of_int (- 928))"
    unfolding next_sample_predictor[of 1 30000 "- 30000" 30000 "- 2000"] Let_def P2 T2 y2 e2
    by simp
  then have w2:
    "next_sample 1 (scast (30000 :: s16), scast (- 30000 :: s16), scast (30000 :: s16)) (- 2000)
          = Inr (- 30000, 30000, - 928)"
    by simp
  have "next_sample 1 (scast (1000 :: s16), scast (2000 :: s16), scast (3000 :: s16)) 735
          = Inr (scast (2000 :: s16), scast (3000 :: s16), word_of_int (- 7680))"
    unfolding next_sample_predictor[of 1 1000 2000 3000 735] Let_def P1 T1 y3 e3 by simp
  then have w3: "next_sample 1 (scast (1000 :: s16), scast (2000 :: s16), scast (3000 :: s16)) 735
          = Inr (2000, 3000, - 7680)"
    by simp
  have w4: "next_sample 1 (scast (1000 :: s16), scast (2000 :: s16), scast (3000 :: s16)) 4000
          = Inl UndefinedShift"
    unfolding next_sample_predictor[of 1 1000 2000 3000 4000] Let_def P1 T1 y4 by simp
  have "next_sample 0 (scast (30000 :: s16), scast (- 30000 :: s16), scast (30000 :: s16)) 1
          = Inr (scast (- 30000 :: s16), scast (30000 :: s16), word_of_int 18929)"
    unfolding next_sample_predictor[of 0 30000 "- 30000" 30000 1] Let_def P2 l5 by simp
  then have w5:
    "next_sample 0 (scast (30000 :: s16), scast (- 30000 :: s16), scast (30000 :: s16)) 1
          = Inr (- 30000, 30000, 18929)"
    by simp
  show ?thesis by (intro conjI w1 w2 w3 w4 w5)
qed

section \<open>Coefficient unpacker: the block header\<close>

lemma header_dc_field:
  "signed_drop_bit 22 (push_bit 21 (ucast (h :: u16) :: u32)) = scast (ucast (drop_bit 1 h) :: 10 word)"
  by (rule bit_word_eqI) (auto simp: bit_simps)

lemma g_index_look_up_table_nonzero:
  "i < 64 \<Longrightarrow> g_index_look_up_table ! i \<noteq> 0"
proof -
  have "list_all (\<lambda>x. x \<noteq> 0) g_index_look_up_table"
    by (simp add: g_index_look_up_table_def)
  moreover have "length g_index_look_up_table = 64"
    by (simp add: g_index_look_up_table_def)
  ultimately show "i < 64 \<Longrightarrow> g_index_look_up_table ! i \<noteq> 0"
    by (simp add: list_all_length)
qed

lemma g_block_related_2_nonzero:
  "i < 64 \<Longrightarrow> g_block_related_2_dword_42B0CC ! i \<noteq> 0"
proof -
  have "list_all (\<lambda>x. x \<noteq> 0) g_block_related_2_dword_42B0CC"
    by (simp add: g_block_related_2_dword_42B0CC_def)
  moreover have "length g_block_related_2_dword_42B0CC = 64"
    by (simp add: g_block_related_2_dword_42B0CC_def)
  ultimately show "i < 64 \<Longrightarrow> g_block_related_2_dword_42B0CC ! i \<noteq> 0"
    by (simp add: list_all_length)
qed

lemma g_block_related_3_nonzero:
  "i < 64 \<Longrightarrow> g_block_related_3_dword_42B0D0 ! i \<noteq> 0"
proof -
  have "list_all (\<lambda>x. x \<noteq> 0) g_block_related_3_dword_42B0D0"
    by (simp add: g_block_related_3_dword_42B0D0_def)
  moreover have "length g_block_related_3_dword_42B0D0 = 64"
    by (simp add: g_block_related_3_dword_42B0D0_def)
  ultimately show "i < 64 \<Longrightarrow> g_block_related_3_dword_42B0D0 ! i \<noteq> 0"
    by (simp add: list_all_length)
qed

lemma RL_ZSCAN_MATRIX_2_nonzero:
  "0 < i \<Longrightarrow> i < 64 \<Longrightarrow> RL_ZSCAN_MATRIX_2 ! i \<noteq> 0"
proof -
  have "list_all (\<lambda>x. x \<noteq> 0) (tl RL_ZSCAN_MATRIX_2)"
    by (simp add: RL_ZSCAN_MATRIX_2_def)
  moreover have "length (tl RL_ZSCAN_MATRIX_2) = 63"
    by (simp add: RL_ZSCAN_MATRIX_2_def)
  ultimately have "j < 63 \<Longrightarrow> tl RL_ZSCAN_MATRIX_2 ! j \<noteq> 0" for j
    by (simp add: list_all_length)
  from this[of "i - 1"] show "0 < i \<Longrightarrow> i < 64 \<Longrightarrow> RL_ZSCAN_MATRIX_2 ! i \<noteq> 0"
    by (cases i) (simp_all add: RL_ZSCAN_MATRIX_2_def)
qed

lemma table_read_Inr:
  "table_read t i = Inr v \<Longrightarrow> i < length t \<and> v = t ! i"
  by (auto simp: table_read_def split: if_splits)

lemma table_lengths:
  "length g_index_look_up_table = 64" "length RL_ZSCAN_MATRIX_2 = 64"
  "length g_block_related_2_dword_42B0CC = 64" "length g_block_related_3_dword_42B0D0 = 64"
  by (simp_all add: g_index_look_up_table_def RL_ZSCAN_MATRIX_2_def
        g_block_related_2_dword_42B0CC_def g_block_related_3_dword_42B0D0_def)

lemma slot_write_keeps_slot0:
  "slot_write pOutput i v = Inr pOutput' \<Longrightarrow> i \<noteq> 0 \<Longrightarrow>
     pOutput' ! 0 = pOutput ! 0 \<and> length pOutput' = length pOutput"
  by (auto simp: slot_write_def split: if_splits)

lemma unat_nonzero: "(w :: u32) \<noteq> 0 \<Longrightarrow> unat w \<noteq> 0"
  by (simp add: unat_eq_zero)

lemma index_write_keeps_slot0:
  assumes "table_read g_index_look_up_table c = Inr idx"
    and "slot_write pOutput (unat idx) v = Inr pOutput'"
  shows "pOutput' ! 0 = pOutput ! 0 \<and> length pOutput' = length pOutput"
proof -
  from table_read_Inr[OF assms(1)] have "c < 64" "idx = g_index_look_up_table ! c"
    by (simp_all add: table_lengths)
  then have "unat idx \<noteq> 0"
    using g_index_look_up_table_nonzero unat_nonzero by simp
  with assms(2) show ?thesis by (rule slot_write_keeps_slot0)
qed

lemma incremental_loop_keeps_slot0:
  "incremental_loop qtable pInput pOutput tableIdx counter = Inr (pInput', pOutput') \<Longrightarrow>
     pOutput' ! 0 = pOutput ! 0 \<and> length pOutput' = length pOutput"
proof (induction pInput arbitrary: pOutput tableIdx counter)
  case Nil
  then show ?case by simp
next
  case (Cons w pInput)
  show ?case
  proof (cases "(ucast w :: u32) = 0xFE00")
    case True
    with Cons.prems show ?thesis by simp
  next
    case False
    from Cons.prems False show ?thesis
      apply (simp add: Let_def)
      apply (erule bindE_InrE)+
      apply (frule (1) index_write_keeps_slot0)
      apply (auto split: if_splits dest!: Cons.IH)
      done
  qed
qed

lemma zero_run_keeps_slot0:
  "zero_run k pOutput counter = Inr (idx, pOutput', counter') \<Longrightarrow>
     pOutput' ! 0 = pOutput ! 0 \<and> length pOutput' = length pOutput \<and> idx \<noteq> 0"
proof (induction k arbitrary: pOutput counter)
  case 0
  then show ?case
    by (auto elim!: bindE_InrE dest!: table_read_Inr
             simp: table_lengths g_index_look_up_table_nonzero unat_gt_0)
next
  case (Suc k)
  from Suc.prems show ?case
    apply simp
    apply (erule bindE_InrE)+
    apply (frule (1) index_write_keeps_slot0)
    apply (auto dest!: Suc.IH)
    done
qed

lemma run_skip_loop_keeps_slot0:
  "run_skip_loop qtable pInput pOutput tableIdx counter = Inr (returned, pInput', pOutput', counter') \<Longrightarrow>
     pOutput' ! 0 = pOutput ! 0 \<and> length pOutput' = length pOutput"
proof (induction pInput arbitrary: pOutput tableIdx counter)
  case Nil
  then show ?case by simp
next
  case (Cons w pInput)
  show ?case
  proof (cases "(ucast w :: u32) = 0xFE00")
    case True
    with Cons.prems show ?thesis by simp
  next
    case False
    from Cons.prems False show ?thesis
      apply (simp add: Let_def)
      apply (erule bindE_InrE)+
      apply (clarsimp split: prod.splits)
      apply (erule bindE_InrE)+
      apply (frule zero_run_keeps_slot0)
      apply (auto split: if_splits dest!: Cons.IH slot_write_keeps_slot0)
      done
  qed
qed

lemma zero_unaligned_keeps_slot0:
  "zero_unaligned n counter3 pOutput = Inr (counter3', pOutput') \<Longrightarrow> 0 < counter3 \<Longrightarrow>
     pOutput' ! 0 = pOutput ! 0 \<and> length pOutput' = length pOutput \<and> 0 < counter3'"
proof (induction n arbitrary: counter3 pOutput)
  case 0
  then show ?case by simp
next
  case (Suc n)
  show ?case
  proof (cases "counter3 mod 4 \<noteq> 0")
    case False
    with Suc.prems show ?thesis by simp
  next
    case True
    with Suc.prems obtain idx out1 where
      tr: "table_read RL_ZSCAN_MATRIX_2 counter3 = Inr idx" and
      sw: "slot_write pOutput (unat idx) 0 = Inr out1" and
      rest: "zero_unaligned n (counter3 + 1) out1 = Inr (counter3', pOutput')"
      by (auto elim!: bindE_InrE)
    from table_read_Inr[OF tr] Suc.prems(2) have "unat idx \<noteq> 0"
      using RL_ZSCAN_MATRIX_2_nonzero unat_nonzero by (simp add: table_lengths)
    from slot_write_keeps_slot0[OF sw this] Suc.IH[OF rest] show ?thesis by simp
  qed
qed

lemma zero_tail_keeps_slot0:
  "zero_tail counter3 pOutput = Inr pOutput' \<Longrightarrow> 0 < counter3 \<Longrightarrow>
     pOutput' ! 0 = pOutput ! 0 \<and> length pOutput' = length pOutput"
proof (induction counter3 pOutput rule: zero_tail.induct)
  case (1 counter3 pOutput)
  show ?case
  proof (cases "counter3 = 64")
    case True
    with "1.prems" show ?thesis by (simp add: zero_tail.simps)
  next
    case False
    with "1.prems" obtain i0 o0 i1 o1 i2 o2 i3 o3 where
      r0: "table_read RL_ZSCAN_MATRIX_2 counter3 = Inr i0" and
      w0: "slot_write pOutput (unat i0) 0 = Inr o0" and
      r1: "table_read g_index_look_up_table counter3 = Inr i1" and
      w1: "slot_write o0 (unat i1) 0 = Inr o1" and
      r2: "table_read g_block_related_2_dword_42B0CC counter3 = Inr i2" and
      w2: "slot_write o1 (unat i2) 0 = Inr o2" and
      r3: "table_read g_block_related_3_dword_42B0D0 counter3 = Inr i3" and
      w3: "slot_write o2 (unat i3) 0 = Inr o3" and
      rest: "(if counter3 < 64 then zero_tail (counter3 + 4) o3 else Inl TableOutOfBounds)
               = Inr pOutput'"
      by (subst (asm) zero_tail.simps) (auto elim!: bindE_InrE)
    from rest have lt: "counter3 < 64" and zt: "zero_tail (counter3 + 4) o3 = Inr pOutput'"
      by (auto split: if_splits)
    have n0: "unat i0 \<noteq> 0"
      using table_read_Inr[OF r0] "1.prems"(2) RL_ZSCAN_MATRIX_2_nonzero unat_nonzero
      by (simp add: table_lengths)
    have n1: "unat i1 \<noteq> 0"
      using table_read_Inr[OF r1] g_index_look_up_table_nonzero unat_nonzero
      by (simp add: table_lengths)
    have n2: "unat i2 \<noteq> 0"
      using table_read_Inr[OF r2] g_block_related_2_nonzero unat_nonzero
      by (simp add: table_lengths)
    have n3: "unat i3 \<noteq> 0"
      using table_read_Inr[OF r3] g_block_related_3_nonzero unat_nonzero
      by (simp add: table_lengths)
    have IH: "pOutput' ! 0 = o3 ! 0 \<and> length pOutput' = length o3"
      using "1.IH"[OF False lt zt] by simp
    from slot_write_keeps_slot0[OF w0 n0] slot_write_keeps_slot0[OF w1 n1]
         slot_write_keeps_slot0[OF w2 n2] slot_write_keeps_slot0[OF w3 n3] IH
    show ?thesis by simp
  qed
qed

lemma skip_eob_head: "skip_eob ws = h # rest \<Longrightarrow> h \<noteq> 0xFE00"
  by (induction ws) (auto split: if_splits)

text \<open>
  Claim C2 (as amended). After the leading \<open>0xFE00\<close> words the unpacker reads the header word
  \<open>H\<close>, and when it returns, output slot 0 holds \<open>((isLuma ? 1 : 0) << 10) + 2 * DC\<close> where \<open>DC\<close> is
  the sign extension of the 10-bit field in bits 10..1 of \<open>H\<close> (bit 0 is the branch flag, bits
  15..11 are ignored). Nothing the rest of the function stores reaches slot 0.
\<close>

theorem block_header_slot0:
  assumes "ddv_func7_DecodeMacroBlock_impl q inPtr outputBlockPtr isYBlock = Inr (inPtr', pOutput')"
  shows "skip_eob inPtr \<noteq> [] \<and> hd (skip_eob inPtr) \<noteq> 0xFE00 \<and>
         pOutput' ! 0 = push_bit 10 (if isYBlock then 1 else 0)
                          + 2 * scast (ucast (drop_bit 1 (hd (skip_eob inPtr))) :: 10 word) \<and>
         length pOutput' = length outputBlockPtr"
proof -
  let ?qt = "if isYBlock then g_252_buffer_unk_63580C q else g_252_buffer_unk_635A0C q"
  from assms obtain h pInput where sk: "skip_eob inPtr = h # pInput"
    by (cases "skip_eob inPtr") (simp_all add: ddv_func7_DecodeMacroBlock_impl_def)
  with assms obtain out1 where
    hw: "slot_write outputBlockPtr 0 (block_header_slot isYBlock h) = Inr out1" and
    body: "(if h AND 1 \<noteq> 0 then incremental_loop ?qt pInput out1 1 0
            else
              bindE (run_skip_loop ?qt pInput out1 1 0) (\<lambda>(returned, pInput, pOutput, counter).
              if returned then Inr (pInput, pOutput)
              else if counter \<noteq> 0 then
                bindE (zero_unaligned 3 (counter + 1) pOutput) (\<lambda>(counter3, pOutput).
                bindE (zero_tail counter3 pOutput) (\<lambda>pOutput. Inr (pInput, pOutput)))
              else bindE (memset_slots pOutput) (\<lambda>pOutput. Inr (pInput, pOutput)))) = Inr (inPtr', pOutput')"
    by (auto simp: ddv_func7_DecodeMacroBlock_impl_def Let_def elim!: bindE_InrE)
  from hw have out1: "out1 ! 0 = block_header_slot isYBlock h" "length out1 = length outputBlockPtr"
    by (auto simp: slot_write_def split: if_splits)
  have keep: "pOutput' ! 0 = out1 ! 0 \<and> length pOutput' = length out1"
  proof (cases "h AND 1 \<noteq> 0")
    case True
    with body show ?thesis by (auto dest: incremental_loop_keeps_slot0)
  next
    case False
    with body obtain returned pIn pOut counter where
      rs: "run_skip_loop ?qt pInput out1 1 0 = Inr (returned, pIn, pOut, counter)" and
      tail: "(if returned then Inr (pIn, pOut)
              else if counter \<noteq> 0 then
                bindE (zero_unaligned 3 (counter + 1) pOut) (\<lambda>(counter3, pOutput).
                bindE (zero_tail counter3 pOutput) (\<lambda>pOutput. Inr (pIn, pOutput)))
              else bindE (memset_slots pOut) (\<lambda>pOutput. Inr (pIn, pOutput))) = Inr (inPtr', pOutput')"
      by (auto elim!: bindE_InrE split: prod.splits)
    note k1 = run_skip_loop_keeps_slot0[OF rs]
    show ?thesis
    proof (cases returned)
      case True
      with tail k1 show ?thesis by simp
    next
      case nr: False
      show ?thesis
      proof (cases "counter \<noteq> 0")
        case True
        with tail nr obtain c3 o2 where
          zu: "zero_unaligned 3 (counter + 1) pOut = Inr (c3, o2)" and
          zt: "zero_tail c3 o2 = Inr pOutput'"
          by (auto elim!: bindE_InrE split: prod.splits)
        from zero_unaligned_keeps_slot0[OF zu] have k2: "o2 ! 0 = pOut ! 0" "length o2 = length pOut" "0 < c3"
          by simp_all
        from zero_tail_keeps_slot0[OF zt k2(3)] k2 k1 show ?thesis by simp
      next
        case False
        with tail nr have "memset_slots pOut = Inr pOutput'"
          by (auto elim!: bindE_InrE)
        then have "pOutput' ! 0 = pOut ! 0 \<and> length pOutput' = length pOut"
          by (cases pOut) (auto simp: memset_slots_def split: if_splits)
        with k1 show ?thesis by simp
      qed
    qed
  qed
  show ?thesis
    using sk skip_eob_head[OF sk] keep out1
    by (simp add: block_header_slot_def header_dc_field)
qed


subsection \<open>Running the unpacker on the example block\<close>

lemma zero_run_numeral:
  "zero_run (numeral k) pOutput counter =
     bindE (table_read g_index_look_up_table counter) (\<lambda>idx.
     bindE (slot_write pOutput (unat idx) 0) (\<lambda>pOutput.
       zero_run (pred_numeral k) pOutput (counter + 1)))"
  by (subst numeral_eq_Suc) (rule zero_run.simps)

lemma zero_unaligned_numeral:
  "zero_unaligned (numeral k) counter3 pOutput =
     (if counter3 mod 4 \<noteq> 0 then
        bindE (table_read RL_ZSCAN_MATRIX_2 counter3) (\<lambda>idx.
        bindE (slot_write pOutput (unat idx) 0) (\<lambda>pOutput.
          zero_unaligned (pred_numeral k) (counter3 + 1) pOutput))
      else Inr (counter3, pOutput))"
  by (subst numeral_eq_Suc) (rule zero_unaligned.simps)

lemmas unpack_eval =
  ddv_func7_DecodeMacroBlock_impl_def block_header_slot_def memset_slots_def zero_tail.simps
  zero_unaligned_numeral zero_run_numeral
  dequantised_def SetHiWord_def SetLoWord_def MAKELONG_def GetHiWord_def
  slot_write_def slot_read_def table_read_def bindE_Inr bindE_Inl Let_def
  g_index_look_up_table_def RL_ZSCAN_MATRIX_2_def g_block_related_2_dword_42B0CC_def
  g_block_related_3_dword_42B0D0_def qtables_example_def block_words_example_def
  replicate_numeral list_update_Cons_numeral

lemma unpack_example:
  "ddv_func7_DecodeMacroBlock_impl qtables_example block_words_example (replicate 64 0x55) True =
     Inr ([7], [1022, 0, 4282449914, 0, 0, 0, 0, 0, 20971530] @ replicate 55 0)"
  by (simp add: unpack_eval cong: bindE_weak_cong)

theorem block_header_slot0_witness:
  "ddv_func7_DecodeMacroBlock_impl qtables_example block_words_example (replicate 64 0x55) True =
     Inr ([7], [1022, 0, 4282449914, 0, 0, 0, 0, 0, 20971530] @ replicate 55 0) \<and>
   hd (skip_eob block_words_example) = 0x07FE \<and>
   ([1022, 0, 4282449914, 0, 0, 0, 0, 0, 20971530] @ replicate 55 (0 :: u32)) ! 0
      = push_bit 10 1 + 2 * scast (ucast (drop_bit 1 (0x07FE :: u16)) :: 10 word)"
  using block_header_slot0[OF unpack_example] unpack_example
  by (simp add: block_words_example_def)

text \<open>
  The claim as written reads the DC from bits 15..10. For the header \<open>0x07FE\<close> of a luma block
  that field is 1 and the claimed slot value \<open>1024 + 2 = 1026\<close>; the code stores
  \<open>1024 + 2 * (-1) = 1022\<close>.
\<close>

theorem block_header_field_counterexample:
  "ddv_func7_DecodeMacroBlock_impl qtables_example [0x07FE, 0xFE00] (replicate 64 0x55) True
     = Inr ([], 1022 # replicate 63 0) \<and>
   (1022 :: u32) \<noteq> push_bit 10 1 + 2 * scast (ucast (drop_bit 10 (0x07FE :: u16)) :: 6 word)"
  by (simp add: unpack_eval cong: bindE_weak_cong)

section \<open>The end of the frame and the escape in the bitstream decoder\<close>

lemma emit_Inr_iff:
  "emit w s = Inr s' \<longleftrightarrow>
     bs_pOutput s < length (bs_out s) \<and>
     s' = s\<lparr> bs_out := (bs_out s)[bs_pOutput s := w], bs_pOutput := bs_pOutput s + 1 \<rparr>"
  by (auto simp: emit_def)

lemma SkipBits_11:
  "SkipBits 11 s = Inr (s\<lparr> bs_workBits := push_bit 11 (bs_workBits s),
                           bs_usedBitCount := bs_usedBitCount s + 11 \<rparr>)"
  by (simp add: SkipBits_def)

lemma ExtractBits_11_mask: "ExtractBits w 11 AND MASK_11_BITS = ExtractBits w 11"
proof -
  have m: "MASK_11_BITS = mask 11"
    by (simp add: MASK_11_BITS_def mask_eq_exp_minus_1)
  show ?thesis
    unfolding ExtractBits_def m
    by (rule bit_word_eqI) (auto simp: bit_and_iff bit_mask_iff bit_drop_bit_eq dest: bit_imp_le_length)
qed

lemma GetBits_keeps:
  assumes "GetBits pFrameData s = Inr s'"
  shows "bs_out s' = bs_out s" "bs_pOutput s' = bs_pOutput s" "bs_ret s' = bs_ret s"
    "bs_table_index_2 s' = bs_table_index_2 s"
  using assms by (auto simp: GetBits_def Let_def split: if_splits)

lemma SkipBits_keeps:
  assumes "SkipBits n s = Inr s'"
  shows "bs_out s' = bs_out s" "bs_pOutput s' = bs_pOutput s" "bs_ret s' = bs_ret s"
    "bs_table_index_2 s' = bs_table_index_2 s" "bs_rawWord4 s' = bs_rawWord4 s"
    "bs_rawBitStreamPtr s' = bs_rawBitStreamPtr s"
  using assms by (auto simp: SkipBits_def split: if_splits)

lemma OutputWordAndAdvance_Inr:
  assumes "OutputWordAndAdvance pFrameData t = Inr s'"
  shows "bs_pOutput t < length (bs_out t)"
    "bs_out s' = (bs_out t)[bs_pOutput t := ucast (drop_bit 16 (bs_workBits t))]"
    "bs_pOutput s' = bs_pOutput t + 1"
    "bs_rawBitStreamPtr t < length pFrameData"
    "bs_rawBitStreamPtr s' = bs_rawBitStreamPtr t + 1"
    "bs_rawWord4 s' = push_bit (nat (sint (bs_usedBitCount t)))
                        (ucast (pFrameData ! bs_rawBitStreamPtr t))"
    "bs_workBits s' = bs_rawWord4 s' OR push_bit 16 (bs_workBits t)"
    "bs_usedBitCount s' = bs_usedBitCount t"
    "bs_ret s' = bs_ret t" "bs_table_index_2 s' = bs_table_index_2 t"
  using assms
  by (auto simp: OutputWordAndAdvance_def bindE_Inr_iff emit_Inr_iff Let_def split: if_splits)

lemma OutputWordAndAdvance_keeps:
  assumes "OutputWordAndAdvance pFrameData t = Inr s'"
  shows "bs_ret s' = bs_ret t \<and> bs_table_index_2 s' = bs_table_index_2 t \<and>
    length (bs_out s') = length (bs_out t) \<and> bs_pOutput s' = bs_pOutput t + 1 \<and>
    (\<forall>i < bs_pOutput t. bs_out s' ! i = bs_out t ! i)"
  using OutputWordAndAdvance_Inr[OF assms] by simp

lemma end_of_block_Inr:
  assumes "end_of_block pFrameData s = Inr (s', returned)"
  shows "returned \<longleftrightarrow> ExtractBits (bs_workBits s) 11 = MASK_10_BITS"
    "bs_ret s' = bs_ret s" "bs_table_index_2 s' = bs_table_index_2 s"
    "returned \<Longrightarrow> bs_out s' = bs_out s \<and> bs_pOutput s' = bs_pOutput s"
    "\<not> returned \<Longrightarrow> bs_pOutput s < length (bs_out s) \<and>
       bs_out s' = (bs_out s)[bs_pOutput s := ucast (ExtractBits (bs_workBits s) 11 AND MASK_11_BITS)] \<and>
       bs_pOutput s' = bs_pOutput s + 1"
  using assms
  by (auto simp: end_of_block_def Let_def SkipBits_11 bindE_Inr_iff bindE_Inr emit_Inr_iff lo16_def
           dest: GetBits_keeps split: if_splits)

lemma end_of_block_returns:
  assumes "ExtractBits (bs_workBits s) 11 = MASK_10_BITS"
  shows "end_of_block pFrameData s =
           Inr (s\<lparr> bs_workBits := push_bit 11 (bs_workBits s),
                     bs_usedBitCount := bs_usedBitCount s + 11 \<rparr>, True)"
  using assms by (simp add: end_of_block_def Let_def SkipBits_11 bindE_Inr)

lemma after_store_Return_iff:
  "(\<exists>s'. after_store pFrameData w q s = Return r s') \<longleftrightarrow>
     lo16 (bs_rawWord4 s) = MDEC_END \<and> ExtractBits (bs_workBits s) 11 = MASK_10_BITS \<and>
     r = bs_ret s"
proof (cases "lo16 (bs_rawWord4 s) = MDEC_END")
  case False
  then show ?thesis
    by (auto simp: after_store_def Let_def split: sum.splits)
next
  case eob: True
  show ?thesis
  proof (cases "ExtractBits (bs_workBits s) 11 = MASK_10_BITS")
    case True
    with eob show ?thesis
      by (auto simp: after_store_def end_of_block_returns)
  next
    case False
    show ?thesis
    proof (cases "end_of_block pFrameData s")
      case (Inl e)
      with eob False show ?thesis by (simp add: after_store_def)
    next
      case (Inr x)
      obtain t b where x: "x = (t, b)" by (cases x)
      from end_of_block_Inr(1)[OF Inr[unfolded x]] False have "\<not> b" by simp
      with eob False Inr x show ?thesis
        by (auto simp: after_store_def Let_def split: sum.splits)
    qed
  qed
qed

lemma after_store_Continue:
  assumes "after_store pFrameData w q s = Continue p' s'"
  shows "bs_ret s' = bs_ret s" "bs_table_index_2 s' = bs_table_index_2 s"
    "length (bs_out s') = length (bs_out s)" "bs_pOutput s \<le> bs_pOutput s'"
    "i < bs_pOutput s \<Longrightarrow> bs_out s' ! i = bs_out s ! i"
    "lo16 (bs_rawWord4 s) = MDEC_END \<Longrightarrow>
       ExtractBits (bs_workBits s) 11 \<noteq> MASK_10_BITS \<and> bs_pOutput s < bs_pOutput s' \<and>
       bs_pOutput s < length (bs_out s) \<and>
       bs_out s' ! bs_pOutput s = ucast (ExtractBits (bs_workBits s) 11 AND MASK_11_BITS)"
proof -
  let ?e = "if lo16 (bs_rawWord4 s) = MDEC_END then end_of_block pFrameData s else Inr (s, False)"
  from assms obtain t where e: "?e = Inr (t, False)" and
    rest: "(let s = set_lo w t in
            if lo16 (bs_rawWord4 s) = 0 then Continue Lookup s
            else if lo16 (bs_rawWord4 s) \<noteq> 0x7C1F then Continue q s
            else (case OutputWordAndAdvance pFrameData s of
                    Inl e \<Rightarrow> Fault e | Inr s \<Rightarrow> Continue Lookup s)) = Continue p' s'"
    by (cases ?e) (auto simp: after_store_def split: if_splits)
  have t: "bs_ret t = bs_ret s" "bs_table_index_2 t = bs_table_index_2 s"
    "length (bs_out t) = length (bs_out s)" "bs_pOutput s \<le> bs_pOutput t"
    "\<And>i. i < bs_pOutput s \<Longrightarrow> bs_out t ! i = bs_out s ! i"
    "lo16 (bs_rawWord4 s) = MDEC_END \<Longrightarrow>
       ExtractBits (bs_workBits s) 11 \<noteq> MASK_10_BITS \<and> bs_pOutput s < bs_pOutput t \<and>
       bs_pOutput s < length (bs_out s) \<and>
       bs_out t ! bs_pOutput s = ucast (ExtractBits (bs_workBits s) 11 AND MASK_11_BITS)"
    using e end_of_block_Inr[of pFrameData s t False]
    by (auto split: if_splits)
  have u: "bs_ret s' = bs_ret t \<and> bs_table_index_2 s' = bs_table_index_2 t \<and>
    length (bs_out s') = length (bs_out t) \<and> bs_pOutput t \<le> bs_pOutput s' \<and>
    (\<forall>i < bs_pOutput t. bs_out s' ! i = bs_out t ! i)"
    using rest
    by (auto simp: Let_def set_lo_def split: if_splits sum.splits dest!: OutputWordAndAdvance_keeps)
  show "bs_ret s' = bs_ret s" "bs_table_index_2 s' = bs_table_index_2 s"
    "length (bs_out s') = length (bs_out s)" "bs_pOutput s \<le> bs_pOutput s'"
    using t u by auto
  show "i < bs_pOutput s \<Longrightarrow> bs_out s' ! i = bs_out s ! i"
    using t u by auto
  show "lo16 (bs_rawWord4 s) = MDEC_END \<Longrightarrow>
       ExtractBits (bs_workBits s) 11 \<noteq> MASK_10_BITS \<and> bs_pOutput s < bs_pOutput s' \<and>
       bs_pOutput s < length (bs_out s) \<and>
       bs_out s' ! bs_pOutput s = ucast (ExtractBits (bs_workBits s) 11 AND MASK_11_BITS)"
    using t u by auto
qed

lemma step_store:
  assumes "p = Out1 \<or> p = Out2 \<or> p = Out3"
  shows "step gTbl1 gTbl2 pFrameData p s =
     (if bs_pOutput s < length (bs_out s) then
        (let s1 = s\<lparr> bs_out := (bs_out s)[bs_pOutput s := lo16 (bs_rawWord4 s)],
                      bs_pOutput := bs_pOutput s + 1 \<rparr>
         in case p of
              Out1 \<Rightarrow> after_store pFrameData (mOutputWord2 (gTbl2 (bs_table_index_2 s))) Out2 s1
            | Out2 \<Rightarrow> after_store pFrameData (mOutputWord3 (gTbl2 (bs_table_index_2 s))) Out3 s1
            | _ \<Rightarrow>
               if lo16 (bs_rawWord4 s) \<noteq> MDEC_END then Continue Lookup s1
               else
                 (let s2 = s1\<lparr> bs_rawWord4 := ExtractBits (bs_workBits s) 11,
                                bs_workBits := push_bit 11 (bs_workBits s),
                                bs_usedBitCount := bs_usedBitCount s + 11 \<rparr>
                  in if ExtractBits (bs_workBits s) 11 = MASK_10_BITS then Return (bs_ret s) s2
                     else (case bindE (emit (lo16 (ExtractBits (bs_workBits s) 11)) s2)
                                  (GetBits pFrameData) of
                             Inl e \<Rightarrow> Fault e
                           | Inr s \<Rightarrow> Continue Lookup s)))
      else Fault DecodedOutOfBounds)"
  using assms
  by (auto simp: step_def emit_def Let_def SkipBits_11)

lemma step_Return_iff:
  "(\<exists>s'. step gTbl1 gTbl2 pFrameData p s = Return r s') \<longleftrightarrow>
     (p = Out1 \<or> p = Out2 \<or> p = Out3) \<and> bs_pOutput s < length (bs_out s) \<and>
     lo16 (bs_rawWord4 s) = MDEC_END \<and> ExtractBits (bs_workBits s) 11 = MASK_10_BITS \<and>
     r = bs_ret s"
proof (cases p)
  case Lookup
  then show ?thesis by (auto simp: step_def Let_def split: sum.splits)
next
  case Narrow
  then show ?thesis by (auto simp: step_def Let_def split: sum.splits)
next
  case Out1
  then show ?thesis
    by (simp add: step_store Let_def after_store_Return_iff)
next
  case Out2
  then show ?thesis
    by (simp add: step_store Let_def after_store_Return_iff)
next
  case Out3
  then show ?thesis
    by (auto simp: step_store Let_def split: sum.splits)
qed

lemma step_Return_out:
  assumes "step gTbl1 gTbl2 pFrameData p s = Return r s'"
  shows "bs_out s' = (bs_out s)[bs_pOutput s := MDEC_END] \<and> bs_pOutput s' = bs_pOutput s + 1 \<and>
    bs_pOutput s < length (bs_out s)"
proof -
  from assms step_Return_iff[of gTbl1 gTbl2 pFrameData p s r]
  have c: "p = Out1 \<or> p = Out2 \<or> p = Out3" "bs_pOutput s < length (bs_out s)"
    "lo16 (bs_rawWord4 s) = MDEC_END" "ExtractBits (bs_workBits s) 11 = MASK_10_BITS"
    by blast+
  from c(1) show ?thesis
  proof (elim disjE)
    assume "p = Out1"
    with assms c show ?thesis
      by (auto simp: step_store Let_def after_store_def end_of_block_returns)
  next
    assume "p = Out2"
    with assms c show ?thesis
      by (auto simp: step_store Let_def after_store_def end_of_block_returns)
  next
    assume "p = Out3"
    with assms c show ?thesis
      by (auto simp: step_store Let_def)
  qed
qed

lemma step_Continue_eob:
  assumes "step gTbl1 gTbl2 pFrameData p s = Continue p' s'"
    and p: "p = Out1 \<or> p = Out2 \<or> p = Out3"
    and eob: "lo16 (bs_rawWord4 s) = MDEC_END"
  shows "ExtractBits (bs_workBits s) 11 \<noteq> MASK_10_BITS \<and>
    bs_pOutput s + 2 \<le> bs_pOutput s' \<and> bs_pOutput s + 1 < length (bs_out s') \<and>
    bs_out s' ! bs_pOutput s = MDEC_END \<and>
    bs_out s' ! (bs_pOutput s + 1) = ucast (ExtractBits (bs_workBits s) 11 AND MASK_11_BITS)"
proof -
  let ?s1 = "s\<lparr> bs_out := (bs_out s)[bs_pOutput s := lo16 (bs_rawWord4 s)],
                  bs_pOutput := bs_pOutput s + 1 \<rparr>"
  from assms have room: "bs_pOutput s < length (bs_out s)"
    by (auto simp: step_store split: if_splits)
  from p show ?thesis
  proof (elim disjE)
    assume "p = Out1"
    with assms room
    have a: "after_store pFrameData (mOutputWord2 (gTbl2 (bs_table_index_2 s))) Out2 ?s1 =
               Continue p' s'"
      by (simp add: step_store Let_def)
    from after_store_Continue(3,4,6)[OF a] after_store_Continue(5)[OF a, of "bs_pOutput s"]
      eob room
    show ?thesis by simp
  next
    assume "p = Out2"
    with assms room
    have a: "after_store pFrameData (mOutputWord3 (gTbl2 (bs_table_index_2 s))) Out3 ?s1 =
               Continue p' s'"
      by (simp add: step_store Let_def)
    from after_store_Continue(3,4,6)[OF a] after_store_Continue(5)[OF a, of "bs_pOutput s"]
      eob room
    show ?thesis by simp
  next
    assume p3: "p = Out3"
    let ?s2 = "?s1\<lparr> bs_rawWord4 := ExtractBits (bs_workBits s) 11,
                     bs_workBits := push_bit 11 (bs_workBits s),
                     bs_usedBitCount := bs_usedBitCount s + 11 \<rparr>"
    from assms p3 room obtain t where
      ne: "ExtractBits (bs_workBits s) 11 \<noteq> MASK_10_BITS" and
      e: "emit (lo16 (ExtractBits (bs_workBits s) 11)) ?s2 = Inr t" and
      g: "GetBits pFrameData t = Inr s'"
      by (auto simp: step_store Let_def bindE_Inr_iff split: if_splits sum.splits)
    from e have t: "Suc (bs_pOutput s) < length (bs_out s)"
      "bs_out t = (bs_out s)[bs_pOutput s := lo16 (bs_rawWord4 s),
                             Suc (bs_pOutput s) := lo16 (ExtractBits (bs_workBits s) 11)]"
      "bs_pOutput t = bs_pOutput s + 2"
      by (auto simp: emit_Inr_iff)
    with GetBits_keeps(1,2)[OF g] ne eob room show ?thesis
      by (simp add: ExtractBits_11_mask lo16_def)
  qed
qed

lemma step_keeps_ret:
  assumes "step gTbl1 gTbl2 pFrameData p s = Continue p' s'"
  shows "bs_ret s' = bs_ret s"
proof (cases p)
  case Lookup
  with assms show ?thesis
    by (auto simp: step_def Let_def bindE_Inr_iff emit_Inr_iff
             split: if_splits sum.splits dest!: SkipBits_keeps(3) GetBits_keeps(3))
next
  case Narrow
  with assms show ?thesis
    by (auto simp: step_def Let_def bindE_Inr_iff set_lo_def
             split: if_splits sum.splits
             dest!: SkipBits_keeps(3) GetBits_keeps(3) OutputWordAndAdvance_keeps)
next
  case Out1
  with assms show ?thesis
    by (auto simp: step_store Let_def split: if_splits dest!: after_store_Continue(1))
next
  case Out2
  with assms show ?thesis
    by (auto simp: step_store Let_def split: if_splits dest!: after_store_Continue(1))
next
  case Out3
  with assms show ?thesis
    by (auto simp: step_store Let_def bindE_Inr_iff emit_Inr_iff
             split: if_splits sum.splits dest!: GetBits_keeps(3))
qed

lemma decode_loop_Inr:
  assumes "decode_loop gTbl1 gTbl2 pFrameData p s = Inr (r, s')"
  shows "r = bs_ret s \<and> 0 < bs_pOutput s' \<and> bs_pOutput s' \<le> length (bs_out s') \<and>
    bs_out s' ! (bs_pOutput s' - 1) = MDEC_END"
  using assms
proof (induction gTbl1 gTbl2 pFrameData p s rule: decode_loop.induct)
  case (1 gTbl1 gTbl2 pFrameData p s)
  show ?case
  proof (cases "step gTbl1 gTbl2 pFrameData p s")
    case (Fault e)
    with "1.prems" show ?thesis by (simp add: decode_loop.simps)
  next
    case (Return r0 s0)
    with "1.prems" have eq: "r0 = r" "s0 = s'" by (simp_all add: decode_loop.simps)
    from Return step_Return_iff[of gTbl1 gTbl2 pFrameData p s r0] have "r0 = bs_ret s"
      by blast
    with step_Return_out[OF Return] eq show ?thesis by simp
  next
    case (Continue p1 s1)
    with "1.prems" have "decode_loop gTbl1 gTbl2 pFrameData p1 s1 = Inr (r, s')"
      by (simp add: decode_loop.simps)
    from "1.IH"[OF Continue this] step_keeps_ret[OF Continue] show ?thesis by simp
  qed
qed

lemma decode_bitstream_init_Inr:
  assumes "decode_bitstream_init pFrameData pOutput = Inr s"
  shows "bs_ret s = ucast (pFrameData ! 0)"
  using assms
  by (auto simp: decode_bitstream_init_def Let_def SkipBits_11 bindE_Inr emit_Inr_iff bindE_Inr_iff
           split: if_splits)

lemma run_steps_numeral:
  "run_steps gTbl1 gTbl2 pFrameData (numeral k) p s =
     (case step gTbl1 gTbl2 pFrameData p s of
        Fault e \<Rightarrow> Fault e
      | Return r s' \<Rightarrow> Return r s'
      | Continue p' s' \<Rightarrow> run_steps gTbl1 gTbl2 pFrameData (pred_numeral k) p' s')"
  by (subst numeral_eq_Suc) (rule run_steps.simps)

lemmas bitstream_eval =
  decode_bitstream_def decode_bitstream_init_def decode_loop.simps run_steps_numeral step_def
  after_store_def end_of_block_def SkipBits_def GetBits_def emit_def OutputWordAndAdvance_def
  ExtractBits_def lo16_def set_lo_def SetLoWord_def MAKELONG_def GetHiWord_def MASK_11_BITS_def
  MASK_10_BITS_def MDEC_END_def gTbl1_example_def gTbl2_example_def Let_def bindE_Inr bindE_Inl
  replicate_numeral list_update_Cons_numeral

lemma two_blocks_run:
  "decode_bitstream gTbl1_example gTbl2_example frame_two_blocks (replicate 8 0xAAAA) =
     Inr (5, \<lparr> bs_ret = 5, bs_workBits = 0, bs_rawWord4 = 0x3FEFE00, bs_usedBitCount = 25,
                bs_rawBitStreamPtr = 4, bs_pOutput = 6,
                bs_out = [0x155, 0x0405, 0xFE00, 0x2AA, 0x0405, 0xFE00, 0xAAAA, 0xAAAA],
                bs_table_index_2 = 5119 \<rparr>)"
  by (simp add: bitstream_eval frame_two_blocks_def cong: bindE_weak_cong)

lemma two_blocks_block_end:
  "step gTbl1_example gTbl2_example frame_two_blocks Out1 block_end_state =
     Continue Lookup
       \<lparr> bs_ret = 5, bs_workBits = 0x67FE0000, bs_rawWord4 = 0x3FE0000, bs_usedBitCount = 10,
         bs_rawBitStreamPtr = 4, bs_pOutput = 4,
         bs_out = [0x155, 0x0405, 0xFE00, 0x2AA, 0xAAAA, 0xAAAA, 0xAAAA, 0xAAAA],
         bs_table_index_2 = 4778 \<rparr>"
  by (simp add: bitstream_eval frame_two_blocks_def block_end_state_def cong: bindE_weak_cong)

lemma two_blocks_frame_end:
  "step gTbl1_example gTbl2_example frame_two_blocks Out1 frame_end_state =
     Return 5
       \<lparr> bs_ret = 5, bs_workBits = 0, bs_rawWord4 = 0x3FEFE00, bs_usedBitCount = 25,
         bs_rawBitStreamPtr = 4, bs_pOutput = 6,
         bs_out = [0x155, 0x0405, 0xFE00, 0x2AA, 0x0405, 0xFE00, 0xAAAA, 0xAAAA],
         bs_table_index_2 = 5119 \<rparr>"
  by (simp add: bitstream_eval frame_two_blocks_def frame_end_state_def cong: bindE_weak_cong)

lemma two_blocks_reach:
  "map_sum id (run_steps gTbl1_example gTbl2_example frame_two_blocks 5 Lookup)
     (decode_bitstream_init frame_two_blocks (replicate 8 0xAAAA)) =
     Inr (Continue Out1 block_end_state)"
  "map_sum id (run_steps gTbl1_example gTbl2_example frame_two_blocks 11 Lookup)
     (decode_bitstream_init frame_two_blocks (replicate 8 0xAAAA)) =
     Inr (Continue Out1 frame_end_state)"
  by (simp_all add: bitstream_eval frame_two_blocks_def block_end_state_def frame_end_state_def
           cong: bindE_weak_cong)

text \<open>
  Claim C4. A transition of \<^verbatim>\<open>decode_bitstream\<close> returns exactly at one of the three stores of a
  \<^verbatim>\<open>gTbl2\<close> output word, when the word stored is \<open>0xFE00\<close> and the top 11 bits of the work register
  are \<open>0x3FF\<close>; the value returned is the one captured at the start. When such a store of \<open>0xFE00\<close>
  is followed by another 11-bit field, the machine goes on, with \<open>0xFE00\<close> and then the field
  masked to 11 bits as the next two output words. A whole run that returns gives the first word
  of the frame data, zero-extended, and the last word it stored is \<open>0xFE00\<close>. Words stored from
  \<^verbatim>\<open>gTbl1\<close> and the literal of an escape are not tested: the machine never returns at \<open>Lookup\<close> or
  \<open>Narrow\<close>.
\<close>

theorem decode_bitstream_end_of_frame:
  "((\<exists>s'. step gTbl1 gTbl2 pFrameData p s = Return r s') \<longleftrightarrow>
      (p = Out1 \<or> p = Out2 \<or> p = Out3) \<and> bs_pOutput s < length (bs_out s) \<and>
      lo16 (bs_rawWord4 s) = MDEC_END \<and> ExtractBits (bs_workBits s) 11 = MASK_10_BITS \<and>
      r = bs_ret s) \<and>
   ((p = Out1 \<or> p = Out2 \<or> p = Out3) \<and> lo16 (bs_rawWord4 s) = MDEC_END \<and>
    step gTbl1 gTbl2 pFrameData p s = Continue p' t \<longrightarrow>
      ExtractBits (bs_workBits s) 11 \<noteq> MASK_10_BITS \<and>
      bs_pOutput s + 2 \<le> bs_pOutput t \<and> bs_pOutput s + 1 < length (bs_out t) \<and>
      bs_out t ! bs_pOutput s = MDEC_END \<and>
      bs_out t ! (bs_pOutput s + 1) = ucast (ExtractBits (bs_workBits s) 11 AND MASK_11_BITS)) \<and>
   (decode_bitstream gTbl1 gTbl2 pFrameData pOutput = Inr (r', s') \<longrightarrow>
      r' = ucast (pFrameData ! 0) \<and> 0 < bs_pOutput s' \<and>
      bs_pOutput s' \<le> length (bs_out s') \<and> bs_out s' ! (bs_pOutput s' - 1) = MDEC_END)"
proof (intro conjI impI)
  show "(\<exists>s'. step gTbl1 gTbl2 pFrameData p s = Return r s') \<longleftrightarrow>
      (p = Out1 \<or> p = Out2 \<or> p = Out3) \<and> bs_pOutput s < length (bs_out s) \<and>
      lo16 (bs_rawWord4 s) = MDEC_END \<and> ExtractBits (bs_workBits s) 11 = MASK_10_BITS \<and>
      r = bs_ret s"
    by (rule step_Return_iff)
next
  assume a: "(p = Out1 \<or> p = Out2 \<or> p = Out3) \<and> lo16 (bs_rawWord4 s) = MDEC_END \<and>
    step gTbl1 gTbl2 pFrameData p s = Continue p' t"
  then have c: "ExtractBits (bs_workBits s) 11 \<noteq> MASK_10_BITS \<and>
    bs_pOutput s + 2 \<le> bs_pOutput t \<and> bs_pOutput s + 1 < length (bs_out t) \<and>
    bs_out t ! bs_pOutput s = MDEC_END \<and>
    bs_out t ! (bs_pOutput s + 1) = ucast (ExtractBits (bs_workBits s) 11 AND MASK_11_BITS)"
    using step_Continue_eob[of gTbl1 gTbl2 pFrameData p s p' t] by blast
  from c show "ExtractBits (bs_workBits s) 11 \<noteq> MASK_10_BITS" by blast
  from c show "bs_pOutput s + 2 \<le> bs_pOutput t" by blast
  from c show "bs_pOutput s + 1 < length (bs_out t)" by blast
  from c show "bs_out t ! bs_pOutput s = MDEC_END" by blast
  from c show "bs_out t ! (bs_pOutput s + 1) =
    ucast (ExtractBits (bs_workBits s) 11 AND MASK_11_BITS)" by blast
next
  assume "decode_bitstream gTbl1 gTbl2 pFrameData pOutput = Inr (r', s')"
  then obtain s0 where i: "decode_bitstream_init pFrameData pOutput = Inr s0" and
    l: "decode_loop gTbl1 gTbl2 pFrameData Lookup s0 = Inr (r', s')"
    by (auto simp: decode_bitstream_def bindE_Inr_iff)
  from decode_loop_Inr[OF l] decode_bitstream_init_Inr[OF i]
  show "r' = ucast (pFrameData ! 0)" "0 < bs_pOutput s'" "bs_pOutput s' \<le> length (bs_out s')"
    "bs_out s' ! (bs_pOutput s' - 1) = MDEC_END"
    by simp_all
qed

theorem decode_bitstream_end_of_frame_witness:
  "lo16 (bs_rawWord4 block_end_state) = MDEC_END \<and>
   step gTbl1_example gTbl2_example frame_two_blocks Out1 block_end_state =
     Continue Lookup
       \<lparr> bs_ret = 5, bs_workBits = 0x67FE0000, bs_rawWord4 = 0x3FE0000, bs_usedBitCount = 10,
         bs_rawBitStreamPtr = 4, bs_pOutput = 4,
         bs_out = [0x155, 0x0405, 0xFE00, 0x2AA, 0xAAAA, 0xAAAA, 0xAAAA, 0xAAAA],
         bs_table_index_2 = 4778 \<rparr> \<and>
   ExtractBits (bs_workBits block_end_state) 11 \<noteq> MASK_10_BITS \<and>
   ExtractBits (bs_workBits block_end_state) 11 AND MASK_11_BITS = 0x2AA \<and>
   lo16 (bs_rawWord4 frame_end_state) = MDEC_END \<and>
   ExtractBits (bs_workBits frame_end_state) 11 = MASK_10_BITS \<and>
   (\<exists>s'. step gTbl1_example gTbl2_example frame_two_blocks Out1 frame_end_state = Return 5 s') \<and>
   decode_bitstream gTbl1_example gTbl2_example frame_two_blocks (replicate 8 0xAAAA) =
     Inr (5, \<lparr> bs_ret = 5, bs_workBits = 0, bs_rawWord4 = 0x3FEFE00, bs_usedBitCount = 25,
                bs_rawBitStreamPtr = 4, bs_pOutput = 6,
                bs_out = [0x155, 0x0405, 0xFE00, 0x2AA, 0x0405, 0xFE00, 0xAAAA, 0xAAAA],
                bs_table_index_2 = 5119 \<rparr>) \<and>
   ucast (frame_two_blocks ! 0) = (5 :: s32)"
proof -
  let ?t = "\<lparr> bs_ret = 5, bs_workBits = 0x67FE0000, bs_rawWord4 = 0x3FE0000,
              bs_usedBitCount = 10, bs_rawBitStreamPtr = 4, bs_pOutput = 4,
              bs_out = [0x155, 0x0405, 0xFE00, 0x2AA, 0xAAAA, 0xAAAA, 0xAAAA, 0xAAAA],
              bs_table_index_2 = 4778 \<rparr>"
  let ?e = "\<lparr> bs_ret = 5, bs_workBits = 0, bs_rawWord4 = 0x3FEFE00, bs_usedBitCount = 25,
              bs_rawBitStreamPtr = 4, bs_pOutput = 6,
              bs_out = [0x155, 0x0405, 0xFE00, 0x2AA, 0x0405, 0xFE00, 0xAAAA, 0xAAAA],
              bs_table_index_2 = 5119 \<rparr>"
  have eob: "lo16 (bs_rawWord4 block_end_state) = MDEC_END"
    "lo16 (bs_rawWord4 frame_end_state) = MDEC_END"
    by (simp_all add: block_end_state_def frame_end_state_def lo16_def MDEC_END_def)
  have field: "ExtractBits (bs_workBits block_end_state) 11 AND MASK_11_BITS = 0x2AA"
    "ExtractBits (bs_workBits frame_end_state) 11 = MASK_10_BITS"
    by (simp_all add: block_end_state_def frame_end_state_def ExtractBits_def MASK_10_BITS_def
          MASK_11_BITS_def)
  have room: "bs_pOutput frame_end_state < length (bs_out frame_end_state)"
    "bs_ret frame_end_state = 5"
    by (simp_all add: frame_end_state_def)
  from decode_bitstream_end_of_frame[of gTbl1_example gTbl2_example frame_two_blocks Out1
      block_end_state 5 Lookup ?t "replicate 8 0xAAAA" 5 ?e]
    eob(1) two_blocks_block_end two_blocks_run
  have c: "ExtractBits (bs_workBits block_end_state) 11 \<noteq> MASK_10_BITS"
    "(5 :: s32) = ucast (frame_two_blocks ! 0)"
    by blast+
  from decode_bitstream_end_of_frame[of gTbl1_example gTbl2_example frame_two_blocks Out1
      frame_end_state 5 Lookup ?t "replicate 8 0xAAAA" 5 ?e, THEN conjunct1]
    eob(2) field(2) room
  have r: "\<exists>s'. step gTbl1_example gTbl2_example frame_two_blocks Out1 frame_end_state =
                  Return 5 s'"
    by simp
  from eob field c(1) c(2)[symmetric] r two_blocks_block_end two_blocks_run show ?thesis
    by blast
qed

text \<open>
  The claim as written tests every emitted \<open>0xFE00\<close>. On \<open>frame_literal_eob\<close> the second word the
  decoder stores is \<open>0xFE00\<close>, the literal of an escape, and the 11 bits after it are \<open>0x3FF\<close>; the
  decoder does not return there but looks the next code up, and stores three more words before
  it returns.
\<close>

theorem literal_end_of_block_counterexample:
  "map_sum id (run_steps gTbl1_example gTbl2_example frame_literal_eob 2 Lookup)
     (decode_bitstream_init frame_literal_eob (replicate 8 0xAAAA)) =
     Inr (Continue Lookup literal_stored_state) \<and>
   bs_out literal_stored_state ! (bs_pOutput literal_stored_state - 1) = MDEC_END \<and>
   ExtractBits (bs_workBits literal_stored_state) 11 = MASK_10_BITS \<and>
   step gTbl1_example gTbl2_example frame_literal_eob Lookup literal_stored_state =
     Continue Narrow (literal_stored_state\<lparr> bs_table_index_2 := 4093 \<rparr>) \<and>
   decode_bitstream gTbl1_example gTbl2_example frame_literal_eob (replicate 8 0xAAAA) =
     Inr (3, \<lparr> bs_ret = 3, bs_workBits = 0, bs_rawWord4 = 0xFE00, bs_usedBitCount = 14,
                bs_rawBitStreamPtr = 6, bs_pOutput = 5,
                bs_out = [0x155, 0xFE00, 0x0405, 0xFEAB, 0xFE00, 0xAAAA, 0xAAAA, 0xAAAA],
                bs_table_index_2 = 5119 \<rparr>)"
  by (simp add: bitstream_eval frame_literal_eob_def literal_stored_state_def
        cong: bindE_weak_cong)








end
